theory Spec2Isabelle
  imports Complex_Main "HOL-Library.Word"
begin

section \<open>Strings and numbers of the source language\<close>

text \<open>
  A JavaScript string is a sequence of 16-bit code units; \<open>length\<close> counts code
  units, as \<open>String.prototype.length\<close> does. Indices and sizes are non-negative
  integers (\<open>nat\<close>); where the source subtracts, the subtraction is written over \<open>int\<close>.
\<close>

type_synonym jschar = "16 word"
type_synonym jsstring = "jschar list"

text \<open>ASCII literals, for readable concrete inputs.\<close>

definition js :: "string \<Rightarrow> jsstring" where
  "js s = map of_char s"

text \<open>
  \<open>s.substring(a, b)\<close>: both indices are clamped to the length of the string and
  swapped when the first is larger. \<open>s.substring(a)\<close> runs to the end of the string.
\<close>

definition substring :: "'a list \<Rightarrow> nat \<Rightarrow> nat \<Rightarrow> 'a list" where
  "substring s a b =
     (let a' = min a (length s); b' = min b (length s);
          lo = min a' b'; hi = max a' b'
      in take (hi - lo) (drop lo s))"

definition substring_from :: "'a list \<Rightarrow> nat \<Rightarrow> 'a list" where
  "substring_from s a = drop (min a (length s)) s"

text \<open>Decimal rendering of an index inside a template string.\<close>

fun show_nat :: "nat \<Rightarrow> string" where
  "show_nat n =
     (if n < 10 then [''0123456789'' ! n]
      else show_nat (n div 10) @ [''0123456789'' ! (n mod 10)])"

declare show_nat.simps [simp del]

subsection \<open>Double-precision arithmetic of the break threshold\<close>

text \<open>
  The test \<open>sentenceEnd > startIndex + maxChunkSize * 0.7\<close> is evaluated in IEEE-754
  binary64. The literal \<open>0.7\<close> denotes the double \<open>6305039478318694 * 2^-53\<close>. All
  quantities of the test are non-negative multiples of \<open>2^-53\<close>, so they are kept as
  natural numbers in that unit; \<open>round_to_double\<close> rounds such a number to 53
  significant bits, ties to even, which is what each floating-point operation does
  to its exact result. The test is reached only when \<open>maxChunkSize < text.length\<close>, so
  the integers it reads are below \<open>2^53\<close> and are doubles as they stand.
\<close>

definition d07 :: nat where
  "d07 = 6305039478318694"

fun bit_length :: "nat \<Rightarrow> nat" where
  "bit_length n = (if n = 0 then 0 else Suc (bit_length (n div 2)))"

declare bit_length.simps [simp del]

definition round_to_double :: "nat \<Rightarrow> nat" where
  "round_to_double n =
     (let len = bit_length n in
      if len \<le> 53 then n
      else
        (let k = len - 53; q = n div 2 ^ k; r = n mod 2 ^ k; half = 2 ^ (k - 1)
         in if half < r \<or> (r = half \<and> odd q) then (q + 1) * 2 ^ k else q * 2 ^ k))"

text \<open>\<open>maxChunkSize * 0.7\<close>, in units of \<open>2^-53\<close>.\<close>

definition times_0_7 :: "nat \<Rightarrow> nat" where
  "times_0_7 maxChunkSize = round_to_double (maxChunkSize * d07)"

text \<open>\<open>sentenceEnd > startIndex + maxChunkSize * 0.7\<close>.\<close>

definition beyond_threshold :: "nat \<Rightarrow> nat \<Rightarrow> nat \<Rightarrow> bool" where
  "beyond_threshold sentenceEnd startIndex maxChunkSize \<longleftrightarrow>
     round_to_double (startIndex * 2 ^ 53 + times_0_7 maxChunkSize) < sentenceEnd * 2 ^ 53"

section \<open>Text chunking (utils/chunking)\<close>

record TextChunk =
  chunk_id :: string
  content :: jsstring
  index :: nat
  totalChunks :: nat
  originalLength :: nat

definition MAX_CHUNK_SIZE :: nat where
  "MAX_CHUNK_SIZE = 2000"

definition OVERLAP_SIZE :: nat where
  "OVERLAP_SIZE = 100"

definition sentenceEnders :: "jschar list" where
  "sentenceEnders = [0x2E, 0x21, 0x3F, 0x0A, 0x3002, 0xFF01, 0xFF1F]"

definition calculateBreakScore :: "int \<Rightarrow> int \<Rightarrow> int" where
  "calculateBreakScore position target =
     (let distance = \<bar>position - target\<bar> in max 0 (100 - distance))"

text \<open>
  One iteration of the backward scan of \<open>findSentenceBreak\<close>; the state is
  \<open>(bestBreak, bestScore)\<close>.
\<close>

definition break_step ::
  "jsstring \<Rightarrow> nat \<Rightarrow> nat \<Rightarrow> nat \<times> int \<Rightarrow> nat \<Rightarrow> nat \<times> int" where
  "break_step searchText start target best i =
     (if searchText ! i \<in> set sentenceEnders then
        (let position = start + i + 1;
             score = calculateBreakScore (int position) (int target)
         in if snd best < score then (position, score) else best)
      else best)"

text \<open>
  The loop \<open>for (i = searchText.length - 1; i >= Math.max(0, target - start - 200); i--)\<close>
  visits the indices \<open>rev [lo..<length searchText]\<close>, each of them inside \<open>searchText\<close>.
\<close>

definition findSentenceBreak :: "jsstring \<Rightarrow> nat \<Rightarrow> nat \<Rightarrow> nat" where
  "findSentenceBreak text start target =
     (let searchText = substring text start (target + 200);
          lo = nat (max 0 (int target - int start - 200))
      in fst (foldl (break_step searchText start target) (target, 0)
                (rev [lo..<length searchText])))"

text \<open>Lines 46 to 54 of \<open>chunkText\<close>: the end of the window that starts at \<open>startIndex\<close>.\<close>

definition window_end :: "jsstring \<Rightarrow> nat \<Rightarrow> nat \<Rightarrow> nat" where
  "window_end text maxChunkSize startIndex =
     (let endIndex = min (startIndex + maxChunkSize) (length text) in
      if endIndex < length text then
        (let sentenceEnd = findSentenceBreak text startIndex endIndex in
         if beyond_threshold sentenceEnd startIndex maxChunkSize then sentenceEnd
         else endIndex)
      else endIndex)"

text \<open>\<open>startIndex = Math.max(endIndex - this.OVERLAP_SIZE, endIndex)\<close>.\<close>

definition next_start :: "nat \<Rightarrow> nat" where
  "next_start endIndex = nat (max (int endIndex - int OVERLAP_SIZE) (int endIndex))"

definition new_chunk :: "jsstring \<Rightarrow> nat \<Rightarrow> nat \<Rightarrow> nat \<Rightarrow> TextChunk" where
  "new_chunk text startIndex endIndex chunkIndex =
     \<lparr> chunk_id = ''chunk-'' @ show_nat chunkIndex,
       content = substring text startIndex endIndex,
       index = chunkIndex,
       totalChunks = 0,
       originalLength = length text \<rparr>"

text \<open>
  The \<open>while (startIndex < text.length)\<close> loop. Nothing in the source bounds the number
  of iterations, so the loop is a partial function: \<open>None\<close> is a run that never ends.
\<close>

partial_function (option) chunk_loop ::
  "jsstring \<Rightarrow> nat \<Rightarrow> nat \<Rightarrow> nat \<Rightarrow> TextChunk list \<Rightarrow> TextChunk list option" where
  "chunk_loop text maxChunkSize startIndex chunkIndex chunks =
     (if startIndex < length text then
        (let endIndex = window_end text maxChunkSize startIndex;
             chunks' = chunks @ [new_chunk text startIndex endIndex chunkIndex]
         in chunk_loop text maxChunkSize (next_start endIndex) (chunkIndex + 1) chunks')
      else Some chunks)"

declare chunk_loop.simps [code]

text \<open>\<open>chunks.forEach(chunk => { chunk.totalChunks = chunks.length })\<close>.\<close>

definition set_totals :: "TextChunk list \<Rightarrow> TextChunk list" where
  "set_totals chunks = map (\<lambda>chunk. chunk\<lparr>totalChunks := length chunks\<rparr>) chunks"

definition chunkText :: "jsstring \<Rightarrow> nat \<Rightarrow> TextChunk list option" where
  "chunkText text maxChunkSize =
     (if length text \<le> maxChunkSize then
        Some [\<lparr> chunk_id = ''chunk-0'', content = text, index = 0,
                totalChunks = 1, originalLength = length text \<rparr>]
      else map_option set_totals (chunk_loop text maxChunkSize 0 0 []))"

text \<open>
  \<open>findOverlap\<close>: the loop \<open>for (i = maxOverlap; i > 0; i--)\<close> returns the first, that is
  the largest, \<open>i\<close> at which the suffix of \<open>text1\<close> equals the prefix of \<open>text2\<close>.
\<close>

definition findOverlap :: "jsstring \<Rightarrow> jsstring \<Rightarrow> nat" where
  "findOverlap text1 text2 =
     (let maxOverlap = min (OVERLAP_SIZE * 2) (min (length text1) (length text2)) in
      case find (\<lambda>i. substring_from text1 (length text1 - i) = substring text2 0 i)
                (rev [1..<Suc maxOverlap]) of
        Some i \<Rightarrow> i
      | None \<Rightarrow> 0)"

text \<open>The body of the merging loop of \<open>reconstructText\<close>, at index \<open>i\<close>.\<close>

definition merge_step :: "TextChunk list \<Rightarrow> jsstring \<Rightarrow> nat \<Rightarrow> jsstring" where
  "merge_step sortedChunks result i =
     (let currentChunk = sortedChunks ! i;
          previousChunk = sortedChunks ! (i - 1);
          overlap = findOverlap (content previousChunk) (content currentChunk);
          cleanContent = substring_from (content currentChunk) overlap
      in result @ cleanContent)"

text \<open>
  \<open>chunks.sort((a, b) => a.index - b.index)\<close> is a stable sort by index, as
  \<open>sort_key\<close> is.
\<close>

definition reconstructText :: "TextChunk list \<Rightarrow> jsstring" where
  "reconstructText chunks =
     (if length chunks = 0 then []
      else if length chunks = 1 then content (chunks ! 0)
      else
        (let sortedChunks = sort_key index chunks
         in foldl (merge_step sortedChunks) (content (sortedChunks ! 0))
              [1..<length sortedChunks]))"

text \<open>
  What the merging loop appends for the segment at index \<open>i\<close> of the sorted array; used to
  state what \<open>reconstructText\<close> returns.
\<close>

definition kept_part :: "TextChunk list \<Rightarrow> nat \<Rightarrow> jsstring" where
  "kept_part cs i =
     drop (findOverlap (content (cs ! (i - 1))) (content (cs ! i))) (content (cs ! i))"

text \<open>
  The reassembler as the specification words it, for comparison with \<open>reconstructText\<close>:
  the overlap of the next segment is searched at the end of the text assembled so far.
\<close>

definition reassemble_as_specified :: "TextChunk list \<Rightarrow> jsstring" where
  "reassemble_as_specified chunks =
     (if length chunks = 0 then []
      else if length chunks = 1 then content (chunks ! 0)
      else
        (let sortedChunks = sort_key index chunks
         in foldl (\<lambda>result chunk.
                     result @ drop (findOverlap result (content chunk)) (content chunk))
              (content (sortedChunks ! 0)) (tl sortedChunks)))"

text \<open>Three segments whose neighbours share text, as an input of the reassembler.\<close>

definition overlap_example :: "TextChunk list" where
  "overlap_example =
     [\<lparr> chunk_id = ''chunk-0'', content = js ''xab'', index = 0, totalChunks = 3,
        originalLength = 7 \<rparr>,
      \<lparr> chunk_id = ''chunk-1'', content = js ''b'', index = 1, totalChunks = 3,
        originalLength = 7 \<rparr>,
      \<lparr> chunk_id = ''chunk-2'', content = js ''abq'', index = 2, totalChunks = 3,
        originalLength = 7 \<rparr>]"

subsection \<open>Subtitle chunking\<close>

text \<open>
  \<open>subtitles.split(/\n\n|\r\n\r\n/)\<close>: the input is cut at every leftmost match of two
  line feeds or of two carriage-return line-feed pairs; \<open>piece\<close> is the text
  collected since the last cut.
\<close>

definition LF :: jschar where
  "LF = 0x0A"

definition CR :: jschar where
  "CR = 0x0D"

fun split_at_blank :: "jsstring \<Rightarrow> jsstring \<Rightarrow> jsstring list" where
  "split_at_blank piece [] = [piece]"
| "split_at_blank piece (c # cs) =
     (if take 2 (c # cs) = [LF, LF] then piece # split_at_blank [] (drop 1 cs)
      else if take 4 (c # cs) = [CR, LF, CR, LF] then piece # split_at_blank [] (drop 3 cs)
      else split_at_blank (piece @ [c]) cs)"

definition split_blank_lines :: "jsstring \<Rightarrow> jsstring list" where
  "split_blank_lines subtitles = split_at_blank [] subtitles"

text \<open>\<open>String.prototype.trim\<close> strips white space and line terminators at both ends.\<close>

definition is_white_space :: "jschar \<Rightarrow> bool" where
  "is_white_space c \<longleftrightarrow>
     c \<in> set [0x09, 0x0A, 0x0B, 0x0C, 0x0D, 0x20, 0xA0, 0x1680, 0x2028, 0x2029,
              0x202F, 0x205F, 0x3000, 0xFEFF]
     \<or> (0x2000 \<le> c \<and> c \<le> 0x200A)"

definition trim :: "jsstring \<Rightarrow> jsstring" where
  "trim s = rev (dropWhile is_white_space (rev (dropWhile is_white_space s)))"

definition subtitle_chunk :: "jsstring \<Rightarrow> jsstring \<Rightarrow> nat \<Rightarrow> TextChunk" where
  "subtitle_chunk subtitles currentChunk chunkIndex =
     \<lparr> chunk_id = ''subtitle-chunk-'' @ show_nat chunkIndex,
       content = trim currentChunk,
       index = chunkIndex,
       totalChunks = 0,
       originalLength = length subtitles \<rparr>"

text \<open>
  One iteration of \<open>for (const line of lines)\<close>; the state is
  \<open>(chunks, currentChunk, chunkIndex)\<close>.
\<close>

definition subtitle_step ::
  "jsstring \<Rightarrow> nat \<Rightarrow> TextChunk list \<times> jsstring \<times> nat \<Rightarrow> jsstring
     \<Rightarrow> TextChunk list \<times> jsstring \<times> nat" where
  "subtitle_step subtitles maxChunkSize st line =
     (case st of (chunks, currentChunk, chunkIndex) \<Rightarrow>
        if maxChunkSize < length currentChunk + length line \<and> 0 < length currentChunk then
          (chunks @ [subtitle_chunk subtitles currentChunk chunkIndex], line, chunkIndex + 1)
        else
          (chunks, currentChunk @ (if currentChunk \<noteq> [] then [LF, LF] else []) @ line,
           chunkIndex))"

definition chunkSubtitles :: "jsstring \<Rightarrow> nat \<Rightarrow> TextChunk list" where
  "chunkSubtitles subtitles maxChunkSize =
     (let lines = split_blank_lines subtitles in
      case foldl (subtitle_step subtitles maxChunkSize) ([], [], 0) lines of
        (chunks, currentChunk, chunkIndex) \<Rightarrow>
          (let chunks' =
                 (if trim currentChunk \<noteq> []
                  then chunks @ [subtitle_chunk subtitles currentChunk chunkIndex]
                  else chunks)
           in set_totals chunks'))"

text \<open>
  Two invariants of the loop over the blocks, used in the proofs below: the indices
  pushed so far are \<open>0..<chunkIndex\<close> and carry the length of the input; and the
  buffer is empty or holds a character that \<open>trim\<close> keeps, while no segment pushed so far
  is empty.
\<close>

definition subtitle_run_ok :: "jsstring \<Rightarrow> TextChunk list \<times> jsstring \<times> nat \<Rightarrow> bool" where
  "subtitle_run_ok subtitles st \<longleftrightarrow>
     (case st of (chunks, currentChunk, chunkIndex) \<Rightarrow>
        map index chunks = [0..<chunkIndex]
        \<and> (\<forall>c\<in>set chunks. originalLength c = length subtitles))"

definition subtitle_text_ok :: "TextChunk list \<times> jsstring \<times> nat \<Rightarrow> bool" where
  "subtitle_text_ok st \<longleftrightarrow>
     (case st of (chunks, currentChunk, chunkIndex) \<Rightarrow>
        (currentChunk = [] \<or> (\<exists>c\<in>set currentChunk. \<not> is_white_space c))
        \<and> (\<forall>c\<in>set chunks. content c \<noteq> []))"

section \<open>Translation logger (utils/logger)\<close>

text \<open>
  A thrown value is an \<open>Error\<close> with its message or something else; the handlers record
  \<open>error instanceof Error ? error.message : 'Unknown error'\<close>.
\<close>

datatype thrown = Error string | Not_an_error

definition error_message :: "thrown \<Rightarrow> string" where
  "error_message e = (case e of Error m \<Rightarrow> m | Not_an_error \<Rightarrow> ''Unknown error'')"

datatype metrics_status = Started | Completed | Failed | Timeout

record TranslationMetrics =
  requestId :: string
  startTime :: int
  endTime :: "int option"
  duration :: "int option"
  textLength :: nat
  chunkCount :: "nat option"
  metrics_model :: string
  status :: metrics_status
  error :: "string option"

subsection \<open>The environment of a request\<close>

datatype part = Image_url_part string "string list" | Other_part string

datatype message_content = Text jsstring | Parts "part list" | No_content

record message =
  role :: string
  message_content :: message_content

text \<open>
  What \<open>apiService.sendChatRequest\<close> is called with: the arguments given to
  \<open>buildChatRequestBody\<close> or \<open>buildStreamingChatRequestBody\<close>, the streaming flag and the
  key. What it answers: the call throws, or it returns a response, of which the
  handlers use the parsed JSON (\<open>response.json()\<close>, which may throw) and the body
  stream (\<open>response.body?.getReader()\<close>, which may be absent). A body stream is the
  finite sequence of its reads, after which \<open>done\<close> is reported.
\<close>

record api_call =
  call_messages :: "message list"
  call_model :: string
  call_temperature :: "real option"
  call_max_tokens :: "real option"
  call_streaming :: bool
  call_api_key :: "string option"

record backend_data =
  resultObject0 :: "jsstring option"
  data_content :: "jsstring option"
  usage_prompt_tokens :: "nat option"
  usage_completion_tokens :: "nat option"
  usage_total_tokens :: "nat option"

datatype read_event = Piece "8 word list" | Read_fails thrown

record upstream =
  json_result :: "thrown + backend_data"
  stream_body :: "read_event list option"

datatype backend_result = Rejects thrown | Responds upstream

text \<open>
  The collaborators a request depends on and that are not part of the handler: the clock
  (\<open>Date.now()\<close>, by number of the reading), \<open>generateUUID\<close> (by number of the draw), the
  backend (by number of the call), \<open>TextDecoder.decode\<close>, \<open>extractImageFromContent\<close>,
  the constants of \<open>../constants\<close>, the status \<open>createErrorResponse\<close> uses when none
  is given, and the number of writes the reader of an event stream takes before it
  goes away (\<open>None\<close>: it takes them all).
\<close>

record env =
  now_at :: "nat \<Rightarrow> int"
  uuid_at :: "nat \<Rightarrow> string"
  backend :: "nat \<Rightarrow> api_call \<Rightarrow> backend_result"
  decode :: "8 word list \<Rightarrow> jsstring"
  extractImageFromContent :: "part list \<Rightarrow> string option"
  ALL_ONE_MIN_AVAILABLE_MODELS :: "string list"
  DEFAULT_MODEL :: string
  default_error_status :: nat
  consumer_takes :: "nat option"

text \<open>
  The state a request changes: the metrics map of \<open>TranslationLogger\<close>, the calls made
  to the backend so far, and how often the clock and the UUID generator were used.
\<close>

record world =
  metrics :: "string \<rightharpoonup> TranslationMetrics"
  sent :: "api_call list"
  clock_reads :: nat
  uuids_drawn :: nat

definition Date_now :: "env \<Rightarrow> world \<Rightarrow> int \<times> world" where
  "Date_now e w = (now_at e (clock_reads w), w\<lparr>clock_reads := Suc (clock_reads w)\<rparr>)"

definition generateUUID :: "env \<Rightarrow> world \<Rightarrow> string \<times> world" where
  "generateUUID e w = (uuid_at e (uuids_drawn w), w\<lparr>uuids_drawn := Suc (uuids_drawn w)\<rparr>)"

definition sendChatRequest :: "env \<Rightarrow> api_call \<Rightarrow> world \<Rightarrow> backend_result \<times> world" where
  "sendChatRequest e call w = (backend e (length (sent w)) call, w\<lparr>sent := sent w @ [call]\<rparr>)"

subsection \<open>TranslationLogger\<close>

definition startTranslation :: "env \<Rightarrow> string \<Rightarrow> nat \<Rightarrow> string \<Rightarrow> world \<Rightarrow> world" where
  "startTranslation e rid len mdl w =
     (case Date_now e w of (t, w1) \<Rightarrow>
        w1\<lparr>metrics := (metrics w1)(rid \<mapsto>
              \<lparr> requestId = rid, startTime = t, endTime = None, duration = None,
                textLength = len, chunkCount = None, metrics_model = mdl,
                status = Started, error = None \<rparr>)\<rparr>)"

definition completeTranslation :: "env \<Rightarrow> string \<Rightarrow> nat option \<Rightarrow> world \<Rightarrow> world" where
  "completeTranslation e rid count w =
     (case metrics w rid of
        None \<Rightarrow> w
      | Some m \<Rightarrow>
          (case Date_now e w of (t, w1) \<Rightarrow>
             w1\<lparr>metrics := (metrics w1)(rid \<mapsto>
                   m\<lparr>endTime := Some t, duration := Some (t - startTime m),
                     status := Completed, chunkCount := count\<rparr>)\<rparr>))"

definition failTranslation :: "env \<Rightarrow> string \<Rightarrow> string \<Rightarrow> world \<Rightarrow> world" where
  "failTranslation e rid err w =
     (case metrics w rid of
        None \<Rightarrow> w
      | Some m \<Rightarrow>
          (case Date_now e w of (t, w1) \<Rightarrow>
             w1\<lparr>metrics := (metrics w1)(rid \<mapsto>
                   m\<lparr>endTime := Some t, duration := Some (t - startTime m),
                     status := Failed, error := Some err\<rparr>)\<rparr>))"

text \<open>\<open>if (requestId) { TranslationLogger... }\<close> in the handlers that take an optional id.\<close>

definition complete_if :: "env \<Rightarrow> string option \<Rightarrow> world \<Rightarrow> world" where
  "complete_if e rid w = (case rid of None \<Rightarrow> w | Some r \<Rightarrow> completeTranslation e r None w)"

definition fail_if :: "env \<Rightarrow> string option \<Rightarrow> thrown \<Rightarrow> world \<Rightarrow> world" where
  "fail_if e rid err w =
     (case rid of None \<Rightarrow> w | Some r \<Rightarrow> failTranslation e r (error_message err) w)"

section \<open>Chat completions handler (handlers/chat)\<close>

subsection \<open>Responses\<close>

record chat_completion =
  completion_id :: string
  completion_object :: string
  completion_created :: int
  completion_model :: string
  choice_index :: nat
  choice_role :: string
  choice_content :: jsstring
  choice_finish_reason :: string
  prompt_tokens :: nat
  completion_tokens :: nat
  total_tokens :: nat

record stream_chunk =
  frame_id :: string
  frame_object :: string
  frame_created :: int
  frame_model :: string
  frame_choice_index :: nat
  delta_content :: "jsstring option"
  finish_reason :: "string option"

text \<open>
  What is written to the event stream: \<open>data: ${JSON.stringify(frame)}\n\n\<close>, kept as the
  frame it renders, or a literal line.
\<close>

datatype sse = Json_line stream_chunk | Raw_line string

datatype sink_state = Open | Closed | Aborted thrown

record sink =
  written :: "sse list"
  sink_state :: sink_state
  takes :: "nat option"

datatype json_body = Completion chat_completion | Error_body string

datatype body = Json json_body | Event_stream sink

record response =
  http_status :: nat
  response_body :: body

definition ok :: "response \<Rightarrow> bool" where
  "ok r \<longleftrightarrow> 200 \<le> http_status r \<and> http_status r \<le> 299"

text \<open>
  Modelled from the spec: \<open>createSuccessResponse\<close> and \<open>createErrorResponse\<close> (utils/response)
  are not among the source files. A success is the JSON of its argument with status 200; a
  failure is a JSON error object carrying the message, with the status given or else the
  default one.
\<close>

definition createSuccessResponse :: "chat_completion \<Rightarrow> response" where
  "createSuccessResponse c = \<lparr> http_status = 200, response_body = Json (Completion c) \<rparr>"

definition createErrorResponse :: "env \<Rightarrow> string \<Rightarrow> nat option \<Rightarrow> response" where
  "createErrorResponse e msg st =
     \<lparr> http_status = (case st of None \<Rightarrow> default_error_status e | Some n \<Rightarrow> n),
       response_body = Json (Error_body msg) \<rparr>"

text \<open>\<open>await response.json()\<close> on a response of this handler.\<close>

definition response_json :: "response \<Rightarrow> thrown + json_body" where
  "response_json r =
     (case response_body r of
        Json j \<Rightarrow> Inr j
      | Event_stream s \<Rightarrow> Inl (Error ''Unexpected token in JSON''))"

text \<open>\<open>chunkResult.choices?.[0]?.message?.content || ''\<close>.\<close>

definition translated_text :: "json_body \<Rightarrow> jsstring" where
  "translated_text j = (case j of Completion c \<Rightarrow> choice_content c | Error_body m \<Rightarrow> [])"

subsection \<open>Helpers\<close>

text \<open>\<open>Array.prototype.join\<close>.\<close>

fun join :: "'a list \<Rightarrow> 'a list list \<Rightarrow> 'a list" where
  "join sep [] = []"
| "join sep [x] = x"
| "join sep (x # y # ys) = x @ sep @ join sep (y # ys)"

definition processMessages :: "env \<Rightarrow> message list \<Rightarrow> message list" where
  "processMessages e msgs =
     map (\<lambda>m.
        case message_content m of
          Parts items \<Rightarrow>
            (case extractImageFromContent e items of
               Some imageUrl \<Rightarrow>
                 m\<lparr>message_content :=
                     Parts (map (\<lambda>item. case item of
                                   Image_url_part url extra \<Rightarrow> Image_url_part url []
                                 | Other_part p \<Rightarrow> Other_part p) items)\<rparr>
             | None \<Rightarrow> m)
        | Text t \<Rightarrow> m
        | No_content \<Rightarrow> m) msgs"

text \<open>
  \<open>data.aiRecord?.aiRecordDetail?.resultObject?.[0] || data.content || 'No response generated'\<close>:
  an absent or empty string is falsy.
\<close>

definition first_truthy :: "jsstring option \<Rightarrow> jsstring option \<Rightarrow> jsstring \<Rightarrow> jsstring" where
  "first_truthy a b c =
     (case a of
        Some x \<Rightarrow> if x \<noteq> [] then x else (case b of Some y \<Rightarrow> if y \<noteq> [] then y else c | None \<Rightarrow> c)
      | None \<Rightarrow> (case b of Some y \<Rightarrow> if y \<noteq> [] then y else c | None \<Rightarrow> c))"

definition or_zero :: "nat option \<Rightarrow> nat" where
  "or_zero n = (case n of None \<Rightarrow> 0 | Some k \<Rightarrow> k)"

definition transformToOpenAIFormat ::
  "env \<Rightarrow> backend_data \<Rightarrow> string \<Rightarrow> world \<Rightarrow> chat_completion \<times> world" where
  "transformToOpenAIFormat e d mdl w =
     (case generateUUID e w of (uuid, w1) \<Rightarrow>
      case Date_now e w1 of (t, w2) \<Rightarrow>
        (\<lparr> completion_id = ''chatcmpl-'' @ uuid,
           completion_object = ''chat.completion'',
           completion_created = t div 1000,
           completion_model = mdl,
           choice_index = 0,
           choice_role = ''assistant'',
           choice_content =
             first_truthy (resultObject0 d) (data_content d) (js ''No response generated''),
           choice_finish_reason = ''stop'',
           prompt_tokens = or_zero (usage_prompt_tokens d),
           completion_tokens = or_zero (usage_completion_tokens d),
           total_tokens = or_zero (usage_total_tokens d) \<rparr>, w2))"

subsection \<open>Subtitle detection\<close>

definition is_digit :: "jschar \<Rightarrow> bool" where
  "is_digit c \<longleftrightarrow> 0x30 \<le> c \<and> c \<le> 0x39"

definition is_word_char :: "jschar \<Rightarrow> bool" where
  "is_word_char c \<longleftrightarrow>
     is_digit c \<or> (0x41 \<le> c \<and> c \<le> 0x5A) \<or> (0x61 \<le> c \<and> c \<le> 0x7A) \<or> c = 0x5F"

definition is_line_terminator :: "jschar \<Rightarrow> bool" where
  "is_line_terminator c \<longleftrightarrow> c = 0x0A \<or> c = 0x0D \<or> c = 0x2028 \<or> c = 0x2029"

text \<open>A regular expression without anchors is tried at every position of the text.\<close>

fun any_suffix :: "('a list \<Rightarrow> bool) \<Rightarrow> 'a list \<Rightarrow> bool" where
  "any_suffix p [] = p []"
| "any_suffix p (x # xs) = (p (x # xs) \<or> any_suffix p xs)"

text \<open>\<open>/\d{2}:\d{2}:\d{2}[,.]\d{3}/\<close> at the head of \<open>s\<close>.\<close>

definition timestamp_here :: "jsstring \<Rightarrow> bool" where
  "timestamp_here s \<longleftrightarrow>
     12 \<le> length s \<and> is_digit (s ! 0) \<and> is_digit (s ! 1) \<and> s ! 2 = 0x3A
     \<and> is_digit (s ! 3) \<and> is_digit (s ! 4) \<and> s ! 5 = 0x3A
     \<and> is_digit (s ! 6) \<and> is_digit (s ! 7) \<and> (s ! 8 = 0x2C \<or> s ! 8 = 0x2E)
     \<and> is_digit (s ! 9) \<and> is_digit (s ! 10) \<and> is_digit (s ! 11)"

text \<open>
  \<open>/^\d+$/m\<close>: with the multiline flag the anchors match next to any line terminator,
  so the expression matches when one of the lines between terminators is a non-empty
  run of digits.
\<close>

fun lines_between :: "jsstring \<Rightarrow> jsstring \<Rightarrow> jsstring list" where
  "lines_between line [] = [line]"
| "lines_between line (c # cs) =
     (if is_line_terminator c then line # lines_between [] cs
      else lines_between (line @ [c]) cs)"

definition number_line :: "jsstring \<Rightarrow> bool" where
  "number_line s \<longleftrightarrow> list_ex (\<lambda>l. l \<noteq> [] \<and> list_all is_digit l) (lines_between [] s)"

text \<open>\<open>/-->/\<close>, \<open>/<[^>]+>/\<close> and \<open>/\[\w+\]/\<close> at the head of \<open>s\<close>.\<close>

definition arrow_here :: "jsstring \<Rightarrow> bool" where
  "arrow_here s \<longleftrightarrow> take 3 s = [0x2D, 0x2D, 0x3E]"

definition tag_here :: "jsstring \<Rightarrow> bool" where
  "tag_here s \<longleftrightarrow>
     (case s of
        [] \<Rightarrow> False
      | c # cs \<Rightarrow> c = 0x3C \<and> takeWhile (\<lambda>x. x \<noteq> 0x3E) cs \<noteq> []
                 \<and> dropWhile (\<lambda>x. x \<noteq> 0x3E) cs \<noteq> [])"

definition annotation_here :: "jsstring \<Rightarrow> bool" where
  "annotation_here s \<longleftrightarrow>
     (case s of
        [] \<Rightarrow> False
      | c # cs \<Rightarrow> c = 0x5B \<and> takeWhile is_word_char cs \<noteq> []
                 \<and> (case dropWhile is_word_char cs of [] \<Rightarrow> False | x # xs \<Rightarrow> x = 0x5D))"

definition detectSubtitles :: "jsstring \<Rightarrow> bool" where
  "detectSubtitles text \<longleftrightarrow>
     any_suffix timestamp_here text \<or> number_line text \<or> any_suffix arrow_here text
     \<or> any_suffix tag_here text \<or> any_suffix annotation_here text"

subsection \<open>Single calls\<close>

definition handleNonStreamingChat ::
  "env \<Rightarrow> message list \<Rightarrow> string \<Rightarrow> real option \<Rightarrow> real option \<Rightarrow> string option
     \<Rightarrow> string option \<Rightarrow> world \<Rightarrow> response \<times> world" where
  "handleNonStreamingChat e msgs mdl temp maxTokens apiKey rid w =
     (let requestBody =
            \<lparr> call_messages = msgs, call_model = mdl, call_temperature = temp,
              call_max_tokens = maxTokens, call_streaming = False, call_api_key = apiKey \<rparr>
      in case sendChatRequest e requestBody w of (res, w1) \<Rightarrow>
           (case res of
              Rejects err \<Rightarrow>
                (createErrorResponse e ''Failed to process chat completion'' (Some 500),
                 fail_if e rid err w1)
            | Responds up \<Rightarrow>
                (case json_result up of
                   Inl err \<Rightarrow>
                     (createErrorResponse e ''Failed to process chat completion'' (Some 500),
                      fail_if e rid err w1)
                 | Inr d \<Rightarrow>
                     (case transformToOpenAIFormat e d mdl w1 of (openAIResponse, w2) \<Rightarrow>
                        (createSuccessResponse openAIResponse, complete_if e rid w2)))))"

subsection \<open>Chunked translation\<close>

text \<open>
  The loop \<open>for (let i = 0; i < chunks.length; i++)\<close> of \<open>handleChunkedTranslation\<close>, from
  segment \<open>i\<close> on: \<open>Inl\<close> is what the body throws. Each segment goes through
  \<open>handleNonStreamingChat\<close> without a request id. The pause between two segments has no
  effect on the state and is left out.
\<close>

fun process_chunks ::
  "env \<Rightarrow> real option \<Rightarrow> real option \<Rightarrow> string \<Rightarrow> string \<Rightarrow> TextChunk list \<Rightarrow> nat
     \<Rightarrow> jsstring list \<Rightarrow> world \<Rightarrow> (thrown + jsstring list) \<times> world" where
  "process_chunks e temp maxTokens mdl apiKey [] i translatedChunks w =
     (Inr translatedChunks, w)"
| "process_chunks e temp maxTokens mdl apiKey (chunk # rest) i translatedChunks w =
     (let chunkMessages =
            processMessages e [\<lparr> role = ''user'', message_content = Text (content chunk) \<rparr>]
      in case handleNonStreamingChat e chunkMessages mdl temp maxTokens (Some apiKey) None w of
           (response, w1) \<Rightarrow>
             if \<not> ok response then
               (Inl (Error (''Chunk '' @ show_nat (i + 1) @ '' failed with status ''
                             @ show_nat (http_status response))), w1)
             else
               (case response_json response of
                  Inl err \<Rightarrow> (Inl err, w1)
                | Inr chunkResult \<Rightarrow>
                    process_chunks e temp maxTokens mdl apiKey rest (i + 1)
                      (translatedChunks @ [translated_text chunkResult]) w1))"

definition text_of :: "message \<Rightarrow> jsstring" where
  "text_of msg = (case message_content msg of Text t \<Rightarrow> t | Parts ps \<Rightarrow> [] | No_content \<Rightarrow> [])"

record ChatCompletionRequest =
  messages :: "message list option"
  model :: "string option"
  stream :: bool
  temperature :: "real option"
  max_tokens :: "real option"

text \<open>Lines 304 to 314: the text of the request and its segments.\<close>

definition textContent_of :: "message list \<Rightarrow> jsstring" where
  "textContent_of msgs = join (js '' '') (map text_of msgs)"

definition segments :: "message list \<Rightarrow> TextChunk list option" where
  "segments msgs =
     (let textContent = textContent_of msgs;
          isSubtitles = detectSubtitles textContent
      in if isSubtitles then Some (chunkSubtitles textContent 1500)
         else chunkText textContent 2000)"

text \<open>
  The result is \<open>None\<close> when segmentation does not return. A request without a message
  array makes \<open>requestBody.messages.map\<close> throw inside the \<open>try\<close>.
\<close>

definition handleChunkedTranslation ::
  "env \<Rightarrow> ChatCompletionRequest \<Rightarrow> string \<Rightarrow> string \<Rightarrow> string \<Rightarrow> world
     \<Rightarrow> (response \<times> world) option" where
  "handleChunkedTranslation e requestBody mdl apiKey rid w =
     (case messages requestBody of
        None \<Rightarrow>
          Some (createErrorResponse e ''Failed to process chunked translation'' (Some 500),
                failTranslation e rid
                  (''Cannot read properties of undefined (reading '' @ [CHR 0x27] @ ''map''
                     @ [CHR 0x27] @ '')'') w)
      | Some msgs \<Rightarrow>
          (let textContent = textContent_of msgs;
               isSubtitles = detectSubtitles textContent
           in case segments msgs of
                None \<Rightarrow> None
              | Some chunks \<Rightarrow>
                  Some
                    (case process_chunks e (temperature requestBody) (max_tokens requestBody)
                            mdl apiKey chunks 0 [] w of
                       (Inl err, w1) \<Rightarrow>
                         (createErrorResponse e ''Failed to process chunked translation''
                            (Some 500),
                          failTranslation e rid (error_message err) w1)
                     | (Inr translatedChunks, w1) \<Rightarrow>
                         (let finalTranslation =
                                join (if isSubtitles then [LF, LF] else js '' '')
                                  translatedChunks
                          in case generateUUID e w1 of (uuid, w2) \<Rightarrow>
                             case Date_now e w2 of (t, w3) \<Rightarrow>
                               (createSuccessResponse
                                  \<lparr> completion_id = ''chatcmpl-'' @ uuid,
                                    completion_object = ''chat.completion'',
                                    completion_created = t div 1000,
                                    completion_model = mdl,
                                    choice_index = 0,
                                    choice_role = ''assistant'',
                                    choice_content = finalTranslation,
                                    choice_finish_reason = ''stop'',
                                    prompt_tokens = length textContent div 4,
                                    completion_tokens = length finalTranslation div 4,
                                    total_tokens =
                                      (length textContent + length finalTranslation) div 4 \<rparr>,
                                completeTranslation e rid (Some (length chunks)) w3)))))"

text \<open>
  For the statements about a chunked run: the request sent for one segment, and when the
  call made for it as the \<open>k\<close>-th call of the backend fails, which is when
  \<open>handleNonStreamingChat\<close> answers with status 500.
\<close>

definition segment_call ::
  "env \<Rightarrow> real option \<Rightarrow> real option \<Rightarrow> string \<Rightarrow> string \<Rightarrow> TextChunk \<Rightarrow> api_call" where
  "segment_call e temp maxTokens mdl apiKey chunk =
     \<lparr> call_messages =
         processMessages e [\<lparr> role = ''user'', message_content = Text (content chunk) \<rparr>],
       call_model = mdl, call_temperature = temp, call_max_tokens = maxTokens,
       call_streaming = False, call_api_key = Some apiKey \<rparr>"

definition call_fails :: "env \<Rightarrow> nat \<Rightarrow> api_call \<Rightarrow> bool" where
  "call_fails e k call \<longleftrightarrow>
     (case backend e k call of
        Rejects err \<Rightarrow> True
      | Responds up \<Rightarrow> (case json_result up of Inl err \<Rightarrow> True | Inr d \<Rightarrow> False))"

subsection \<open>Streaming\<close>

text \<open>\<open>await writer.write(...)\<close>: rejected once the reader of the stream is gone.\<close>

definition writer_write :: "sink \<Rightarrow> sse \<Rightarrow> thrown + sink" where
  "writer_write s line =
     (if sink_state s \<noteq> Open then Inl (Error ''Cannot write to a closed stream'')
      else
        (case takes s of
           None \<Rightarrow> Inr (s\<lparr>written := written s @ [line]\<rparr>)
         | Some 0 \<Rightarrow> Inl (Error ''The stream was cancelled'')
         | Some (Suc n) \<Rightarrow> Inr (s\<lparr>written := written s @ [line], takes := Some n\<rparr>)))"

definition DONE_line :: string where
  "DONE_line = ''data: [DONE]'' @ [CHR 0x0A, CHR 0x0A]"

text \<open>
  The \<open>while (true)\<close> loop of the detached task, over the reads that are left: one frame
  per piece. The first component of the result is what the loop throws, if it does. The
  variable \<open>allChunks\<close> collects the pieces and is never read; it is left out.
\<close>

fun pump ::
  "env \<Rightarrow> string \<Rightarrow> read_event list \<Rightarrow> sink \<Rightarrow> world \<Rightarrow> thrown option \<times> sink \<times> world" where
  "pump e mdl [] s w = (None, s, w)"
| "pump e mdl (Read_fails err # rest) s w = (Some err, s, w)"
| "pump e mdl (Piece bytes # rest) s w =
     (let chunk = decode e bytes in
      case generateUUID e w of (uuid, w1) \<Rightarrow>
      case Date_now e w1 of (t, w2) \<Rightarrow>
        (let returnChunk =
               \<lparr> frame_id = ''chatcmpl-'' @ uuid,
                 frame_object = ''chat.completion.chunk'',
                 frame_created = t div 1000,
                 frame_model = mdl,
                 frame_choice_index = 0,
                 delta_content = Some chunk,
                 finish_reason = None \<rparr>
         in case writer_write s (Json_line returnChunk) of
              Inl err \<Rightarrow> (Some err, s, w2)
            | Inr s1 \<Rightarrow> pump e mdl rest s1 w2))"

text \<open>
  The detached task as a whole: the loop, the final frame, the sentinel and the close,
  or else the \<open>catch\<close> that records the failure and aborts the stream.
\<close>

definition transcode ::
  "env \<Rightarrow> string \<Rightarrow> string option \<Rightarrow> read_event list \<Rightarrow> sink \<Rightarrow> world \<Rightarrow> sink \<times> world" where
  "transcode e mdl rid events s w =
     (case pump e mdl events s w of
        (Some err, s1, w1) \<Rightarrow> (s1\<lparr>sink_state := Aborted err\<rparr>, fail_if e rid err w1)
      | (None, s1, w1) \<Rightarrow>
          (case generateUUID e w1 of (uuid, w2) \<Rightarrow>
           case Date_now e w2 of (t, w3) \<Rightarrow>
             (let finalChunk =
                    \<lparr> frame_id = ''chatcmpl-'' @ uuid,
                      frame_object = ''chat.completion.chunk'',
                      frame_created = t div 1000,
                      frame_model = mdl,
                      frame_choice_index = 0,
                      delta_content = None,
                      finish_reason = Some ''stop'' \<rparr>
              in case writer_write s1 (Json_line finalChunk) of
                   Inl err \<Rightarrow> (s1\<lparr>sink_state := Aborted err\<rparr>, fail_if e rid err w3)
                 | Inr s2 \<Rightarrow>
                     (case writer_write s2 (Raw_line DONE_line) of
                        Inl err \<Rightarrow> (s2\<lparr>sink_state := Aborted err\<rparr>, fail_if e rid err w3)
                      | Inr s3 \<Rightarrow> (s3\<lparr>sink_state := Closed\<rparr>, complete_if e rid w3)))))"

definition new_sink :: "env \<Rightarrow> sink" where
  "new_sink e = \<lparr> written = [], sink_state = Open, takes = consumer_takes e \<rparr>"

text \<open>
  For the statements about the event stream: the frame written for a piece when the UUID
  generator has been used \<open>u\<close> times and the clock \<open>c\<close> times before, and the final frame.
\<close>

definition delta_frame :: "env \<Rightarrow> string \<Rightarrow> nat \<Rightarrow> nat \<Rightarrow> 8 word list \<Rightarrow> sse" where
  "delta_frame e mdl u c piece =
     Json_line \<lparr> frame_id = ''chatcmpl-'' @ uuid_at e u,
                 frame_object = ''chat.completion.chunk'',
                 frame_created = now_at e c div 1000,
                 frame_model = mdl,
                 frame_choice_index = 0,
                 delta_content = Some (decode e piece),
                 finish_reason = None \<rparr>"

definition final_frame :: "env \<Rightarrow> string \<Rightarrow> nat \<Rightarrow> nat \<Rightarrow> sse" where
  "final_frame e mdl u c =
     Json_line \<lparr> frame_id = ''chatcmpl-'' @ uuid_at e u,
                 frame_object = ''chat.completion.chunk'',
                 frame_created = now_at e c div 1000,
                 frame_model = mdl,
                 frame_choice_index = 0,
                 delta_content = None,
                 finish_reason = Some ''stop'' \<rparr>"

text \<open>
  \<open>handleStreamingChat\<close> returns the readable end at once and fills it from the detached
  task; the response below holds the stream as the task leaves it.
\<close>

definition handleStreamingChat ::
  "env \<Rightarrow> message list \<Rightarrow> string \<Rightarrow> real option \<Rightarrow> real option \<Rightarrow> string option
     \<Rightarrow> string option \<Rightarrow> world \<Rightarrow> response \<times> world" where
  "handleStreamingChat e msgs mdl temp maxTokens apiKey rid w =
     (let requestBody =
            \<lparr> call_messages = msgs, call_model = mdl, call_temperature = temp,
              call_max_tokens = maxTokens, call_streaming = True, call_api_key = apiKey \<rparr>
      in case sendChatRequest e requestBody w of (res, w1) \<Rightarrow>
           (case res of
              Rejects err \<Rightarrow>
                (createErrorResponse e ''Failed to process streaming chat completion''
                   (Some 500),
                 fail_if e rid err w1)
            | Responds up \<Rightarrow>
                (case stream_body up of
                   None \<Rightarrow>
                     (\<lparr> http_status = 200,
                        response_body = Event_stream ((new_sink e)\<lparr>sink_state := Closed\<rparr>) \<rparr>,
                      w1)
                 | Some events \<Rightarrow>
                     (case transcode e mdl rid events (new_sink e) w1 of (s, w2) \<Rightarrow>
                        (\<lparr> http_status = 200, response_body = Event_stream s \<rparr>, w2)))))"

subsection \<open>The entry point\<close>

definition totalTextLength :: "message list \<Rightarrow> nat" where
  "totalTextLength msgs =
     foldl (\<lambda>sum len. sum + len) 0
       (map (\<lambda>msg. case message_content msg of Text t \<Rightarrow> length t
                    | Parts ps \<Rightarrow> 0 | No_content \<Rightarrow> 0) msgs)"

text \<open>\<open>requestBody.model || DEFAULT_MODEL\<close>.\<close>

definition model_or_default :: "env \<Rightarrow> ChatCompletionRequest \<Rightarrow> string" where
  "model_or_default e requestBody =
     (case model requestBody of
        None \<Rightarrow> DEFAULT_MODEL e
      | Some m \<Rightarrow> if m \<noteq> [] then m else DEFAULT_MODEL e)"

definition handleChatCompletionsWithBody ::
  "env \<Rightarrow> ChatCompletionRequest \<Rightarrow> string \<Rightarrow> world \<Rightarrow> (response \<times> world) option" where
  "handleChatCompletionsWithBody e requestBody apiKey w =
     (case generateUUID e w of (rid, w1) \<Rightarrow>
        (case messages requestBody of
           None \<Rightarrow>
             Some (createErrorResponse e ''Messages field is required and must be an array''
                     None, w1)
         | Some msgs \<Rightarrow>
             (let mdl = model_or_default e requestBody
              in if mdl \<notin> set (ALL_ONE_MIN_AVAILABLE_MODELS e) then
                   Some (createErrorResponse e
                           (''Model '' @ [CHR 0x27] @ mdl @ [CHR 0x27] @ '' is not supported'')
                           None, w1)
                 else
                   (let total = totalTextLength msgs;
                        w2 = startTranslation e rid total mdl w1;
                        shouldChunk = 2000 < total
                    in if shouldChunk then
                         handleChunkedTranslation e requestBody mdl apiKey rid w2
                       else
                         (let processedMessages = processMessages e msgs
                          in if stream requestBody then
                               Some (handleStreamingChat e processedMessages mdl
                                       (temperature requestBody) (max_tokens requestBody)
                                       (Some apiKey) (Some rid) w2)
                             else
                               Some (handleNonStreamingChat e processedMessages mdl
                                       (temperature requestBody) (max_tokens requestBody)
                                       (Some apiKey) (Some rid) w2))))))"

section \<open>A concrete environment\<close>

text \<open>
  An environment and a starting state for the concrete runs below: a clock that advances
  by a millisecond at each reading, numbered UUIDs, a decoder for ASCII bytes, a reader
  that takes every write, and a backend that answers every call with the translation
  \<open>ok\<close> and a body stream of the single piece \<open>Hola\<close>. In \<open>failing_env\<close> the second call of
  the backend (number 1) is rejected.
\<close>

definition hola :: "8 word list" where
  "hola = [0x48, 0x6F, 0x6C, 0x61]"

definition example_env :: env where
  "example_env =
     \<lparr> now_at = (\<lambda>k. 1700000000000 + int k),
       uuid_at = (\<lambda>k. ''uuid-'' @ show_nat k),
       backend = (\<lambda>k call.
          Responds \<lparr> json_result =
                       Inr \<lparr> resultObject0 = Some (js ''ok''), data_content = None,
                             usage_prompt_tokens = None, usage_completion_tokens = None,
                             usage_total_tokens = None \<rparr>,
                     stream_body = Some [Piece hola] \<rparr>),
       decode = map ucast,
       extractImageFromContent = (\<lambda>items. None),
       ALL_ONE_MIN_AVAILABLE_MODELS = [''gpt-4o'', ''gpt-4o-mini''],
       DEFAULT_MODEL = ''gpt-4o-mini'',
       default_error_status = 400,
       consumer_takes = None \<rparr>"

definition failing_env :: env where
  "failing_env =
     example_env\<lparr>backend := (\<lambda>k call.
        if k = 1 then Rejects (Error ''fetch failed'') else backend example_env k call)\<rparr>"

definition fresh_world :: world where
  "fresh_world = \<lparr> metrics = Map.empty, sent = [], clock_reads = 0, uuids_drawn = 0 \<rparr>"

text \<open>
  Two requests: one whose single message has 2001 characters and asks for a stream, one
  with a short message; and the state after \<open>startTranslation\<close> for the request id
  \<open>req-1\<close>.
\<close>

definition long_request :: ChatCompletionRequest where
  "long_request =
     \<lparr> messages = Some [\<lparr> role = ''user'', message_content = Text (replicate 2001 0x61) \<rparr>],
       model = Some ''gpt-4o'', stream = True, temperature = None, max_tokens = None \<rparr>"

definition short_request :: ChatCompletionRequest where
  "short_request =
     \<lparr> messages = Some [\<lparr> role = ''user'', message_content = Text (js ''Hello'') \<rparr>],
       model = Some ''gpt-4o'', stream = True, temperature = None, max_tokens = None \<rparr>"

definition started_world :: world where
  "started_world = startTranslation failing_env ''req-1'' 2001 ''gpt-4o'' fresh_world"

section \<open>Properties of the plain-text chunker\<close>

subsection \<open>Auxiliary facts\<close>

lemma substring_take_drop:
  "a \<le> b \<Longrightarrow> b \<le> length s \<Longrightarrow> substring s a b = take (b - a) (drop a s)"
  by (simp add: substring_def Let_def min_def max_def)

lemma length_substring_le: "a \<le> b \<Longrightarrow> length (substring s a b) \<le> length s - a"
  by (auto simp add: substring_def Let_def min_def max_def)

lemma break_step_range:
  assumes "fst best = target \<or> (start < fst best \<and> fst best \<le> start + n)" and "i < n"
  shows "fst (break_step searchText start target best i) = target
         \<or> (start < fst (break_step searchText start target best i)
             \<and> fst (break_step searchText start target best i) \<le> start + n)"
  using assms by (auto simp add: break_step_def Let_def)

lemma foldl_break_step_range:
  assumes "fst best = target \<or> (start < fst best \<and> fst best \<le> start + n)"
    and "\<forall>i\<in>set ks. i < n"
  shows "fst (foldl (break_step searchText start target) best ks) = target
         \<or> (start < fst (foldl (break_step searchText start target) best ks)
             \<and> fst (foldl (break_step searchText start target) best ks) \<le> start + n)"
  using assms
proof (induction ks arbitrary: best)
  case Nil
  then show ?case by simp
next
  case (Cons i ks)
  have "i < n" using Cons.prems(2) by simp
  from break_step_range [OF Cons.prems(1) this]
  have step: "fst (break_step searchText start target best i) = target
         \<or> (start < fst (break_step searchText start target best i)
             \<and> fst (break_step searchText start target best i) \<le> start + n)" .
  show ?case using Cons.IH [OF step] Cons.prems(2) by simp
qed

lemma findSentenceBreak_range:
  assumes "start \<le> length text" and "start \<le> target"
  shows "findSentenceBreak text start target = target
         \<or> (start < findSentenceBreak text start target
             \<and> findSentenceBreak text start target \<le> length text)"
proof -
  let ?st = "substring text start (target + 200)"
  have len: "start + length ?st \<le> length text"
    using length_substring_le [of start "target + 200" "text"] assms by simp
  have "fst (foldl (break_step ?st start target) (target, 0)
               (rev [nat (max 0 (int target - int start - 200))..<length ?st])) = target
        \<or> (start < fst (foldl (break_step ?st start target) (target, 0)
               (rev [nat (max 0 (int target - int start - 200))..<length ?st]))
            \<and> fst (foldl (break_step ?st start target) (target, 0)
               (rev [nat (max 0 (int target - int start - 200))..<length ?st]))
                 \<le> start + length ?st)"
    by (rule foldl_break_step_range) auto
  then show ?thesis using len by (auto simp add: findSentenceBreak_def Let_def)
qed

lemma window_end_range:
  assumes "0 < m" and "start < length text"
  shows "start < window_end text m start \<and> window_end text m start \<le> length text"
proof (cases "start + m < length text")
  case True
  have "findSentenceBreak text start (start + m) = start + m
         \<or> (start < findSentenceBreak text start (start + m)
             \<and> findSentenceBreak text start (start + m) \<le> length text)"
    by (rule findSentenceBreak_range) (use assms in simp_all)
  then show ?thesis using True assms by (auto simp add: window_end_def Let_def min_def)
next
  case False
  then show ?thesis using assms by (simp add: window_end_def Let_def min_def)
qed

lemma next_start_id: "next_start endIndex = endIndex"
  by (simp add: next_start_def)

lemma chunk_loop_returns:
  assumes "0 < m"
  shows "\<exists>new. chunk_loop text m start k acc = Some (acc @ new)
           \<and> concat (map content new) = drop start text
           \<and> map index new = [k..<k + length new]
           \<and> (\<forall>c\<in>set new. content c \<noteq> [] \<and> originalLength c = length text)"
proof (induction "length text - start" arbitrary: start k acc rule: less_induct)
  case less
  show ?case
  proof (cases "start < length text")
    case False
    then have "chunk_loop text m start k acc = Some acc"
      by (subst chunk_loop.simps) simp
    then show ?thesis using False by simp
  next
    case True
    define e where "e = window_end text m start"
    define c where "c = new_chunk text start e k"
    have range: "start < e" "e \<le> length text"
      using window_end_range [OF assms True] by (simp_all add: e_def)
    have unfold: "chunk_loop text m start k acc = chunk_loop text m e (k + 1) (acc @ [c])"
      by (subst chunk_loop.simps) (simp add: True Let_def e_def c_def next_start_id)
    have "length text - e < length text - start" using range True by simp
    from less [OF this, of "k + 1" "acc @ [c]"]
    obtain new where new: "chunk_loop text m e (k + 1) (acc @ [c]) = Some ((acc @ [c]) @ new)"
      "concat (map content new) = drop e text"
      "map index new = [k + 1..<k + 1 + length new]"
      "\<forall>c\<in>set new. content c \<noteq> [] \<and> originalLength c = length text"
      by blast
    have cont: "content c = take (e - start) (drop start text)"
      using range by (simp add: c_def new_chunk_def substring_take_drop)
    have "take (e - start) (drop start text) @ drop (e - start) (drop start text) = drop start text"
      by (rule append_take_drop_id)
    then have cat: "concat (map content (c # new)) = drop start text"
      using new(2) cont range by (simp add: add.commute)
    have idx: "map index (c # new) = [k..<k + length (c # new)]"
      using new(3) by (simp add: c_def new_chunk_def upt_rec)
    have ne: "content c \<noteq> []" using cont range True by simp
    have ol: "originalLength c = length text" by (simp add: c_def new_chunk_def)
    have "chunk_loop text m start k acc = Some (acc @ (c # new))"
      using unfold new(1) by simp
    then show ?thesis using cat idx ne ol new(4) by (intro exI [of _ "c # new"]) simp
  qed
qed


lemma map_content_set_totals: "map content (set_totals cs) = map content cs"
  by (simp add: set_totals_def)

lemma map_index_set_totals: "map index (set_totals cs) = map index cs"
  by (simp add: set_totals_def)

lemma length_set_totals: "length (set_totals cs) = length cs"
  by (simp add: set_totals_def)

lemma set_totals_member:
  "c \<in> set (set_totals cs) \<Longrightarrow>
     totalChunks c = length cs \<and> (\<exists>d\<in>set cs. content c = content d \<and> originalLength c = originalLength d)"
  by (auto simp add: set_totals_def)

lemma chunkText_returns:
  assumes "0 < m"
  shows "\<exists>chunks. chunkText text m = Some chunks
           \<and> concat (map content chunks) = text
           \<and> map index chunks = [0..<length chunks]
           \<and> (\<forall>c\<in>set chunks. totalChunks c = length chunks \<and> originalLength c = length text
                  \<and> (text \<noteq> [] \<longrightarrow> content c \<noteq> []))"
proof (cases "length text \<le> m")
  case True
  then show ?thesis by (simp add: chunkText_def)
next
  case False
  from chunk_loop_returns [OF assms, of "text" 0 0 "[]"]
  obtain new where new: "chunk_loop text m 0 0 [] = Some new"
      "concat (map content new) = text" "map index new = [0..<length new]"
      "\<forall>c\<in>set new. content c \<noteq> [] \<and> originalLength c = length text"
    by auto
  have "chunkText text m = Some (set_totals new)"
    using False new(1) by (simp add: chunkText_def)
  moreover have "concat (map content (set_totals new)) = text"
    using new(2) by (simp add: map_content_set_totals)
  moreover have "map index (set_totals new) = [0..<length (set_totals new)]"
    using new(3) by (simp add: map_index_set_totals length_set_totals)
  moreover have "\<forall>c\<in>set (set_totals new). totalChunks c = length (set_totals new)
       \<and> originalLength c = length text \<and> (text \<noteq> [] \<longrightarrow> content c \<noteq> [])"
    using new(4) set_totals_member [of _ new] by (fastforce simp add: length_set_totals)
  ultimately show ?thesis by blast
qed

lemma concat_nth_slice:
  assumes "k < length xss"
  shows "xss ! k = take (length (xss ! k)) (drop (length (concat (take k xss))) (concat xss))"
proof -
  have "xss = take k xss @ xss ! k # drop (Suc k) xss"
    using assms by (rule id_take_nth_drop)
  then have "concat xss = concat (take k xss) @ xss ! k @ concat (drop (Suc k) xss)"
    by (metis concat.simps(2) concat_append)
  then show ?thesis by simp
qed

lemma concat_take_Suc:
  assumes "k < length xss"
  shows "concat (take (Suc k) xss) = concat (take k xss) @ xss ! k"
  using assms by (simp add: take_Suc_conv_app_nth)

lemma length_concat_take_le: "length (concat (take k xss)) \<le> length (concat xss)"
proof -
  have "concat xss = concat (take k xss) @ concat (drop k xss)"
    by (metis append_take_drop_id concat_append)
  then show ?thesis by (metis le_add1 length_append)
qed

lemma adjacent_slices:
  assumes "concat (map content chunks) = text" and "k < length chunks"
  shows "content (chunks ! k) =
           substring text (length (concat (map content (take k chunks))))
                          (length (concat (map content (take (Suc k) chunks))))"
proof -
  let ?xss = "map content chunks"
  let ?a = "length (concat (take k ?xss))"
  let ?b = "length (concat (take (Suc k) ?xss))"
  have k: "k < length ?xss" using assms(2) by simp
  have b: "?b = ?a + length (?xss ! k)"
    using concat_take_Suc [OF k] by simp
  have "?b \<le> length (concat ?xss)" by (rule length_concat_take_le)
  then have "substring (concat ?xss) ?a ?b = take (?b - ?a) (drop ?a (concat ?xss))"
    using b by (intro substring_take_drop) simp_all
  also have "\<dots> = ?xss ! k" using concat_nth_slice [OF k] b by simp
  finally show ?thesis using assms by (simp add: take_map)
qed

section \<open>Properties of the subtitle chunker\<close>

lemma foldl_invariant:
  assumes "P s" and "\<And>s x. x \<in> set xs \<Longrightarrow> P s \<Longrightarrow> P (f s x)"
  shows "P (foldl f s xs)"
  using assms by (induction xs arbitrary: s) auto

lemma trim_nonempty_iff: "trim s \<noteq> [] \<longleftrightarrow> (\<exists>c\<in>set s. \<not> is_white_space c)"
proof
  assume "trim s \<noteq> []"
  then show "\<exists>c\<in>set s. \<not> is_white_space c"
    by (auto simp add: trim_def dest: set_dropWhileD)
next
  assume "\<exists>c\<in>set s. \<not> is_white_space c"
  then have ne: "dropWhile is_white_space s \<noteq> []" by simp
  then have "\<not> is_white_space (hd (dropWhile is_white_space s))" by (rule hd_dropWhile)
  moreover have "hd (dropWhile is_white_space s) \<in> set (rev (dropWhile is_white_space s))"
    using ne by simp
  ultimately have "dropWhile is_white_space (rev (dropWhile is_white_space s)) \<noteq> []"
    by auto
  then show "trim s \<noteq> []" by (simp add: trim_def)
qed

lemma subtitle_step_run_ok:
  assumes "subtitle_run_ok subtitles st"
  shows "subtitle_run_ok subtitles (subtitle_step subtitles m st line)"
  using assms
  by (cases st) (auto simp add: subtitle_run_ok_def subtitle_step_def subtitle_chunk_def)

lemma chunkSubtitles_invariants:
  "map index (chunkSubtitles subtitles m) = [0..<length (chunkSubtitles subtitles m)]
   \<and> (\<forall>c\<in>set (chunkSubtitles subtitles m).
         totalChunks c = length (chunkSubtitles subtitles m)
         \<and> originalLength c = length subtitles)"
proof -
  let ?st = "foldl (subtitle_step subtitles m) ([], [], 0) (split_blank_lines subtitles)"
  obtain chunks cur k where st: "?st = (chunks, cur, k)" by (cases ?st) auto
  have "subtitle_run_ok subtitles ?st"
  proof (rule foldl_invariant)
    show "subtitle_run_ok subtitles ([], [], 0)" by (simp add: subtitle_run_ok_def)
  next
    fix s x
    assume "subtitle_run_ok subtitles s"
    then show "subtitle_run_ok subtitles (subtitle_step subtitles m s x)"
      by (rule subtitle_step_run_ok)
  qed
  then have inv: "map index chunks = [0..<k]" "\<forall>c\<in>set chunks. originalLength c = length subtitles"
    by (simp_all add: st subtitle_run_ok_def)
  define chunks' where "chunks' = (if trim cur \<noteq> [] then chunks @ [subtitle_chunk subtitles cur k] else chunks)"
  have k: "length chunks = k" using inv(1) by (metis length_map length_upt minus_nat.diff_0)
  have idx: "map index chunks' = [0..<length chunks']"
    using inv(1) k by (simp add: chunks'_def subtitle_chunk_def)
  have ol: "\<forall>c\<in>set chunks'. originalLength c = length subtitles"
    using inv(2) by (simp add: chunks'_def subtitle_chunk_def)
  have eq: "chunkSubtitles subtitles m = set_totals chunks'"
    by (simp add: chunkSubtitles_def Let_def st chunks'_def)
  show ?thesis
    unfolding eq using idx ol set_totals_member [of _ chunks']
    by (fastforce simp add: map_index_set_totals length_set_totals)
qed

lemma subtitle_step_text_ok:
  assumes "subtitle_text_ok st" and "\<exists>c\<in>set line. \<not> is_white_space c"
  shows "subtitle_text_ok (subtitle_step subtitles m st line)"
proof -
  obtain chunks cur k where st: "st = (chunks, cur, k)" by (cases st) auto
  show ?thesis
  proof (cases "m < length cur + length line \<and> 0 < length cur")
    case True
    then have "trim cur \<noteq> []" using assms(1) by (auto simp add: st subtitle_text_ok_def trim_nonempty_iff)
    then show ?thesis using True assms
      by (auto simp add: st subtitle_text_ok_def subtitle_step_def subtitle_chunk_def)
  next
    case False
    then show ?thesis using assms
      by (auto simp add: st subtitle_text_ok_def subtitle_step_def)
  qed
qed

lemma chunkSubtitles_nonempty:
  assumes "\<forall>block\<in>set (split_blank_lines subtitles). \<exists>c\<in>set block. \<not> is_white_space c"
  shows "\<forall>c\<in>set (chunkSubtitles subtitles m). content c \<noteq> []"
proof -
  let ?st = "foldl (subtitle_step subtitles m) ([], [], 0) (split_blank_lines subtitles)"
  obtain chunks cur k where st: "?st = (chunks, cur, k)" by (cases ?st) auto
  have "subtitle_text_ok ?st"
  proof (rule foldl_invariant)
    show "subtitle_text_ok ([], [], 0)" by (simp add: subtitle_text_ok_def)
  next
    fix s x
    assume "x \<in> set (split_blank_lines subtitles)" and "subtitle_text_ok s"
    then show "subtitle_text_ok (subtitle_step subtitles m s x)"
      using assms by (intro subtitle_step_text_ok) auto
  qed
  then have inv: "\<forall>c\<in>set chunks. content c \<noteq> []"
    by (simp add: st subtitle_text_ok_def)
  define chunks' where "chunks' = (if trim cur \<noteq> [] then chunks @ [subtitle_chunk subtitles cur k] else chunks)"
  have ne: "\<forall>c\<in>set chunks'. content c \<noteq> []"
    using inv by (simp add: chunks'_def subtitle_chunk_def)
  have eq: "chunkSubtitles subtitles m = set_totals chunks'"
    by (simp add: chunkSubtitles_def Let_def st chunks'_def)
  show ?thesis
    unfolding eq using ne set_totals_member [of _ chunks'] by fastforce
qed

subsection \<open>Evaluation on concrete inputs\<close>

lemma bit_length_numeral [simp]:
  "bit_length (numeral (Num.Bit0 n)) = Suc (bit_length (numeral n))"
  "bit_length (numeral (Num.Bit1 n)) = Suc (bit_length (numeral n))"
  "bit_length (Suc 0) = Suc 0" "bit_length 1 = 1" "bit_length 0 = 0"
  by (subst bit_length.simps, simp)+

lemmas chunker_eval =
  chunkText_def js_def chunk_loop.simps window_end_def findSentenceBreak_def substring_def
  break_step_def sentenceEnders_def calculateBreakScore_def next_start_def OVERLAP_SIZE_def
  new_chunk_def set_totals_def Let_def upt_rec beyond_threshold_def times_0_7_def
  round_to_double_def d07_def

lemma chunkText_example:
  "map_option (map content) (chunkText (js ''aaaaaaa.aaaaaaaaaaaa'') 10) =
     Some [js ''aaaaaaa.'', js ''aaaaaaaaaa'', js ''aa'']"
  by (simp add: chunker_eval)

lemma chunkText_example_indices:
  "map_option (map (\<lambda>c. (index c, totalChunks c, originalLength c)))
     (chunkText (js ''aaaaaaa.aaaaaaaaaaaa'') 10) = Some [(0, 3, 20), (1, 3, 20), (2, 3, 20)]"
  by (simp add: chunker_eval)

lemmas subtitle_eval =
  chunkSubtitles_def split_blank_lines_def subtitle_step_def subtitle_chunk_def trim_def
  is_white_space_def set_totals_def js_def LF_def CR_def Let_def

lemma chunkSubtitles_example:
  "map (\<lambda>c. (content c, index c, totalChunks c, originalLength c))
     (chunkSubtitles (js ''1 a'' @ [LF, LF] @ js ''2 b'' @ [LF, LF] @ js ''3 c'') 8) =
     [(js ''1 a'' @ [LF, LF] @ js ''2 b'', 0, 2, 13), (js ''3 c'', 1, 2, 13)]"
  by (simp add: subtitle_eval)

lemma chunkSubtitles_blank_block:
  "map content (chunkSubtitles (js '' '' @ [LF, LF] @ js ''ab'') 2) = [[], js ''ab'']"
  by (simp add: subtitle_eval)

section \<open>Claims about the chunkers\<close>

text \<open>
  C5. A text no longer than the configured maximum segment size is returned as exactly
  one segment: its content is the input text, its index is 0 and its totalChunks is 1.
\<close>

theorem chunkText_small_input:
  assumes "length text \<le> maxChunkSize"
  shows "chunkText text maxChunkSize =
           Some [\<lparr> chunk_id = ''chunk-0'', content = text, index = 0,
                   totalChunks = 1, originalLength = length text \<rparr>]"
  using assms by (simp add: chunkText_def)

theorem chunkText_small_input_witness:
  "length (js ''Hola.'') \<le> MAX_CHUNK_SIZE \<and>
   chunkText (js ''Hola.'') MAX_CHUNK_SIZE =
     Some [\<lparr> chunk_id = ''chunk-0'', content = js ''Hola.'', index = 0,
             totalChunks = 1, originalLength = 5 \<rparr>]"
proof -
  have small: "length (js ''Hola.'') \<le> MAX_CHUNK_SIZE"
    by (simp add: js_def MAX_CHUNK_SIZE_def)
  from chunkText_small_input [OF small] small show ?thesis by (simp add: js_def)
qed

text \<open>
  C10. The plain-text chunker never applies overlap: the cursor update
  \<open>Math.max(endIndex - OVERLAP_SIZE, endIndex)\<close> always gives \<open>endIndex\<close>, so for every text
  (and a positive maximum size) \<open>chunkText\<close> returns segments that are adjacent slices of
  the input, segment \<open>k\<close> starting where the segments before it end, and the plain
  concatenation of their contents in index order is the input text.
\<close>

theorem chunkText_no_overlap:
  assumes "0 < maxChunkSize"
  shows "(\<forall>endIndex. next_start endIndex = endIndex)
         \<and> (\<exists>chunks. chunkText text maxChunkSize = Some chunks
               \<and> concat (map content chunks) = text
               \<and> (\<forall>k<length chunks.
                     content (chunks ! k) =
                       substring text (length (concat (map content (take k chunks))))
                         (length (concat (map content (take (Suc k) chunks))))))"
proof -
  from chunkText_returns [OF assms, of "text"]
  obtain chunks where chunks: "chunkText text maxChunkSize = Some chunks"
    "concat (map content chunks) = text"
    by blast
  have "\<forall>k<length chunks.
          content (chunks ! k) =
            substring text (length (concat (map content (take k chunks))))
              (length (concat (map content (take (Suc k) chunks))))"
    using adjacent_slices [OF chunks(2)] by blast
  then show ?thesis using chunks by (simp add: next_start_id)
qed

theorem chunkText_no_overlap_witness:
  "(0::nat) < 10
   \<and> (\<exists>chunks. chunkText (js ''aaaaaaa.aaaaaaaaaaaa'') 10 = Some chunks
         \<and> map content chunks = [js ''aaaaaaa.'', js ''aaaaaaaaaa'', js ''aa'']
         \<and> concat (map content chunks) = js ''aaaaaaa.aaaaaaaaaaaa'')"
proof -
  have pos: "(0::nat) < 10" by simp
  from chunkText_no_overlap [OF pos, of "js ''aaaaaaa.aaaaaaaaaaaa''"]
  obtain chunks where run: "chunkText (js ''aaaaaaa.aaaaaaaaaaaa'') 10 = Some chunks"
    and cat: "concat (map content chunks) = js ''aaaaaaa.aaaaaaaaaaaa''"
    by (elim conjE exE)
  have "map_option (map content) (Some chunks)
          = Some [js ''aaaaaaa.'', js ''aaaaaaaaaa'', js ''aa'']"
    unfolding run [symmetric] by (rule chunkText_example)
  then have "map content chunks = [js ''aaaaaaa.'', js ''aaaaaaaaaa'', js ''aa'']"
    by (simp only: option.map option.inject)
  with pos run cat show ?thesis by (intro conjI exI [of _ chunks])
qed

text \<open>
  C4. For every input text, the segments returned by \<open>chunkText\<close> (for a positive maximum
  size) and by \<open>chunkSubtitles\<close> have the indices \<open>0, 1, ..., n - 1\<close> in this order, where
  \<open>n\<close> is the number of segments returned, and every segment carries \<open>totalChunks = n\<close>
  and \<open>originalLength\<close> equal to the length of the input text.
\<close>

theorem segment_run_invariants:
  assumes "0 < maxChunkSize"
  shows "(\<exists>chunks. chunkText text maxChunkSize = Some chunks
            \<and> map index chunks = [0..<length chunks]
            \<and> (\<forall>c\<in>set chunks. totalChunks c = length chunks
                   \<and> originalLength c = length text))
         \<and> map index (chunkSubtitles text subtitleSize)
             = [0..<length (chunkSubtitles text subtitleSize)]
         \<and> (\<forall>c\<in>set (chunkSubtitles text subtitleSize).
               totalChunks c = length (chunkSubtitles text subtitleSize)
               \<and> originalLength c = length text)"
proof -
  from chunkText_returns [OF assms, of "text"]
  have "\<exists>chunks. chunkText text maxChunkSize = Some chunks
            \<and> map index chunks = [0..<length chunks]
            \<and> (\<forall>c\<in>set chunks. totalChunks c = length chunks
                   \<and> originalLength c = length text)"
    by blast
  then show ?thesis using chunkSubtitles_invariants [of "text" subtitleSize] by blast
qed

theorem segment_run_invariants_witness:
  "(0::nat) < 10
   \<and> (\<exists>chunks. chunkText (js ''aaaaaaa.aaaaaaaaaaaa'') 10 = Some chunks
         \<and> map index chunks = [0..<length chunks]
         \<and> map (\<lambda>c. (index c, totalChunks c, originalLength c)) chunks
             = [(0, 3, 20), (1, 3, 20), (2, 3, 20)])
   \<and> map (\<lambda>c. (content c, index c, totalChunks c, originalLength c))
       (chunkSubtitles (js ''1 a'' @ [LF, LF] @ js ''2 b'' @ [LF, LF] @ js ''3 c'') 8)
       = [(js ''1 a'' @ [LF, LF] @ js ''2 b'', 0, 2, 13), (js ''3 c'', 1, 2, 13)]"
proof -
  have pos: "(0::nat) < 10" by simp
  from segment_run_invariants [OF pos, of "js ''aaaaaaa.aaaaaaaaaaaa''" 8]
  obtain chunks where run: "chunkText (js ''aaaaaaa.aaaaaaaaaaaa'') 10 = Some chunks"
    and idx: "map index chunks = [0..<length chunks]"
    by (elim conjE exE)
  have "map_option (map (\<lambda>c. (index c, totalChunks c, originalLength c))) (Some chunks)
          = Some [(0, 3, 20), (1, 3, 20), (2, 3, 20)]"
    unfolding run [symmetric] by (rule chunkText_example_indices)
  then have "map (\<lambda>c. (index c, totalChunks c, originalLength c)) chunks
          = [(0, 3, 20), (1, 3, 20), (2, 3, 20)]"
    by (simp only: option.map option.inject)
  with pos run idx chunkSubtitles_example show ?thesis by (intro conjI exI [of _ chunks])
qed

lemma split_blank_lines_example:
  "split_blank_lines (js ''1 a'' @ [LF, LF] @ js ''2 b'' @ [LF, LF] @ js ''3 c'')
     = [js ''1 a'', js ''2 b'', js ''3 c'']"
  by (simp add: split_blank_lines_def js_def LF_def CR_def)

lemma blocks_not_blank_example:
  "list_all (\<lambda>block. list_ex (\<lambda>c. \<not> is_white_space c) block) [js ''1 a'', js ''2 b'', js ''3 c'']"
  by (simp add: js_def is_white_space_def)




section \<open>Properties of the reassembler\<close>

lemma substring_from_drop: "substring_from s a = drop a s"
  by (simp add: substring_from_def min_def)

lemma substring_prefix: "i \<le> length s \<Longrightarrow> substring s 0 i = take i s"
  by (simp add: substring_def Let_def)

lemma find_downward_Some:
  assumes "find P (rev [1..<Suc n]) = Some i"
  shows "1 \<le> i \<and> i \<le> n \<and> P i \<and> (\<forall>j. i < j \<and> j \<le> n \<longrightarrow> \<not> P j)"
  using assms
proof (induction n)
  case 0
  then show ?case by simp
next
  case (Suc n)
  show ?case
  proof (cases "P (Suc n)")
    case True
    then have "i = Suc n" using Suc.prems by simp
    then show ?thesis using True by auto
  next
    case False
    then have "find P (rev [1..<Suc n]) = Some i" using Suc.prems by simp
    from Suc.IH [OF this] show ?thesis using False by (auto simp add: less_Suc_eq_le le_Suc_eq)
  qed
qed

lemma find_downward_None:
  assumes "find P (rev [1..<Suc n]) = None"
  shows "\<forall>j. 1 \<le> j \<and> j \<le> n \<longrightarrow> \<not> P j"
  using assms by (auto simp add: find_None_iff)

lemma findOverlap_longest:
  fixes text1 text2 :: jsstring
  defines "bound \<equiv> min (OVERLAP_SIZE * 2) (min (length text1) (length text2))"
  shows "findOverlap text1 text2 \<le> bound
         \<and> drop (length text1 - findOverlap text1 text2) text1 = take (findOverlap text1 text2) text2
         \<and> (\<forall>j. findOverlap text1 text2 < j \<and> j \<le> bound
                \<longrightarrow> drop (length text1 - j) text1 \<noteq> take j text2)"
proof -
  let ?P = "\<lambda>i. substring_from text1 (length text1 - i) = substring text2 0 i"
  have P: "\<And>j. j \<le> bound \<Longrightarrow> ?P j \<longleftrightarrow> drop (length text1 - j) text1 = take j text2"
    by (simp add: substring_from_drop substring_prefix bound_def)
  show ?thesis
  proof (cases "find ?P (rev [1..<Suc bound])")
    case None
    then have fo: "findOverlap text1 text2 = 0"
      by (simp add: findOverlap_def bound_def Let_def)
    from find_downward_None [OF None] P show ?thesis
      unfolding fo by (auto simp add: Suc_le_eq)
  next
    case (Some i)
    then have fo: "findOverlap text1 text2 = i"
      by (simp add: findOverlap_def bound_def Let_def)
    from find_downward_Some [OF Some] P show ?thesis
      unfolding fo by auto
  qed
qed

lemma findOverlap_le:
  "findOverlap text1 text2 \<le> 2 * OVERLAP_SIZE" "findOverlap text1 text2 \<le> length text2"
  using findOverlap_longest [of text1 text2] by simp_all

lemma foldl_merge_step:
  "foldl (merge_step cs) r ks = r @ concat (map (kept_part cs) ks)"
  by (induction ks arbitrary: r)
     (simp_all add: merge_step_def Let_def substring_from_drop kept_part_def)

lemma reconstructText_unfold:
  "reconstructText chunks =
     (if chunks = [] then []
      else content (sort_key index chunks ! 0)
           @ concat (map (kept_part (sort_key index chunks)) [1..<length chunks]))"
proof (cases chunks)
  case Nil
  then show ?thesis by (simp add: reconstructText_def)
next
  case (Cons c cs)
  show ?thesis
  proof (cases cs)
    case Nil
    then show ?thesis using Cons by (simp add: reconstructText_def)
  next
    case (Cons d ds)
    then have "length chunks \<noteq> 0" "length chunks \<noteq> 1" using \<open>chunks = c # cs\<close> by simp_all
    then show ?thesis
      using \<open>chunks = c # cs\<close>
      by (simp add: reconstructText_def Let_def foldl_merge_step del: upt_Suc)
  qed
qed


lemma sort_key_index_id:
  assumes "map index chunks = [0..<length chunks]"
  shows "sort_key index chunks = chunks"
proof -
  have "sorted (map index chunks)" unfolding assms by simp
  then show ?thesis by (rule sort_key_id_if_sorted)
qed

lemma map_nth_from: "map ((!) xs) [k..<length xs] = drop k xs"
proof -
  have "drop k xs = drop k (map ((!) xs) [0..<length xs])" by (simp add: map_nth)
  also have "\<dots> = map ((!) xs) [k..<length xs]" by (simp add: drop_map)
  finally show ?thesis by simp
qed

lemma length_kept_part:
  "length (kept_part cs i) + findOverlap (content (cs ! (i - 1))) (content (cs ! i))
     = length (content (cs ! i))"
  using findOverlap_le(2) [of "content (cs ! (i - 1))" "content (cs ! i)"]
  by (simp add: kept_part_def)

lemma length_concat_kept:
  "length (concat (map (kept_part cs) ks))
     + sum_list (map (\<lambda>i. findOverlap (content (cs ! (i - 1))) (content (cs ! i))) ks)
   = sum_list (map (\<lambda>i. length (content (cs ! i))) ks)"
proof (induction ks)
  case Nil
  then show ?case by simp
next
  case (Cons k ks)
  then show ?case using length_kept_part [of cs k] by simp
qed

lemma sum_list_overlaps_le:
  "sum_list (map (\<lambda>i. findOverlap (content (cs ! (i - 1))) (content (cs ! i))) ks)
     \<le> 2 * OVERLAP_SIZE * length ks"
proof (induction ks)
  case Nil
  then show ?case by simp
next
  case (Cons k ks)
  then show ?case
    using findOverlap_le(1) [of "content (cs ! (k - 1))" "content (cs ! k)"] by simp
qed

lemma map_content_nth:
  "map (\<lambda>i. content (chunks ! i)) [k..<length chunks] = drop k (map content chunks)"
proof -
  have "map (\<lambda>i. content (chunks ! i)) [k..<length chunks]
          = map content (map ((!) chunks) [k..<length chunks])"
    by simp
  also have "\<dots> = drop k (map content chunks)"
    by (simp only: map_nth_from drop_map)
  finally show ?thesis .
qed

lemma sum_content_lengths:
  "sum_list (map (\<lambda>i. length (content (chunks ! i))) [k..<length chunks])
     = length (concat (drop k (map content chunks)))"
proof -
  have "map (\<lambda>i. length (content (chunks ! i))) [k..<length chunks]
          = map length (map (\<lambda>i. content (chunks ! i)) [k..<length chunks])"
    by simp
  then show ?thesis by (simp only: map_content_nth length_concat)
qed

text \<open>What \<open>reconstructText\<close> returns on a run in index order that covers a text.\<close>

lemma reconstruct_run:
  assumes cover: "concat (map content chunks) = text"
    and order: "map index chunks = [0..<length chunks]"
  defines "overlaps \<equiv>
     map (\<lambda>i. findOverlap (content (chunks ! (i - 1))) (content (chunks ! i))) [1..<length chunks]"
  shows "length (reconstructText chunks) + sum_list overlaps = length text"
    and "sum_list overlaps \<le> 2 * OVERLAP_SIZE * (length chunks - 1)"
    and "reconstructText chunks = text \<longleftrightarrow> (\<forall>v\<in>set overlaps. v = 0)"
proof -
  have sorted: "sort_key index chunks = chunks" using order by (rule sort_key_index_id)
  show bound: "sum_list overlaps \<le> 2 * OVERLAP_SIZE * (length chunks - 1)"
    unfolding overlaps_def using sum_list_overlaps_le [of chunks "[1..<length chunks]"] by simp
  have split: "chunks \<noteq> [] \<Longrightarrow> text = content (chunks ! 0) @ concat (drop 1 (map content chunks))"
    using cover by (cases chunks) simp_all
  have unfold: "chunks \<noteq> [] \<Longrightarrow>
      reconstructText chunks = content (chunks ! 0) @ concat (map (kept_part chunks) [1..<length chunks])"
    by (simp only: reconstructText_unfold sorted if_False)
  show len: "length (reconstructText chunks) + sum_list overlaps = length text"
  proof (cases "chunks = []")
    case True
    then show ?thesis using cover by (simp add: reconstructText_unfold overlaps_def)
  next
    case False
    have "length (reconstructText chunks) + sum_list overlaps
        = length (content (chunks ! 0))
          + (length (concat (map (kept_part chunks) [1..<length chunks])) + sum_list overlaps)"
      by (simp only: unfold [OF False] length_append add.assoc)
    also have "\<dots> = length (content (chunks ! 0)) + length (concat (drop 1 (map content chunks)))"
      unfolding overlaps_def
      by (simp only: length_concat_kept [of chunks "[1..<length chunks]"] sum_content_lengths)
    also have "\<dots> = length (content (chunks ! 0) @ concat (drop 1 (map content chunks)))"
      by (simp only: length_append)
    also have "\<dots> = length text"
      by (simp only: split [OF False, symmetric])
    finally show ?thesis .
  qed
  show "reconstructText chunks = text \<longleftrightarrow> (\<forall>v\<in>set overlaps. v = 0)"
  proof
    assume "reconstructText chunks = text"
    then have "sum_list overlaps = 0" using len by simp
    then show "\<forall>v\<in>set overlaps. v = 0" by simp
  next
    assume zero: "\<forall>v\<in>set overlaps. v = 0"
    show "reconstructText chunks = text"
    proof (cases "chunks = []")
      case True
      then show ?thesis using cover by (simp add: reconstructText_unfold)
    next
      case False
      have "\<forall>i\<in>set [1..<length chunks]. kept_part chunks i = content (chunks ! i)"
        using zero by (simp add: overlaps_def kept_part_def)
      then have "map (kept_part chunks) [1..<length chunks]
          = map (\<lambda>i. content (chunks ! i)) [1..<length chunks]"
        by (intro map_cong) auto
      then have "map (kept_part chunks) [1..<length chunks] = drop 1 (map content chunks)"
        by (simp only: map_content_nth)
      then show ?thesis by (simp only: unfold [OF False] split [OF False])
    qed
  qed
qed

section \<open>Properties of the threshold arithmetic\<close>

lemma bit_length_lower: "0 < n \<Longrightarrow> 2 ^ (bit_length n - 1) \<le> n"
proof (induction n rule: bit_length.induct)
  case (1 n)
  show ?case
  proof (cases "n div 2 = 0")
    case True
    then have "bit_length n = 1" using "1.prems"
      by (subst bit_length.simps, subst bit_length.simps) simp
    then show ?thesis using "1.prems" by simp
  next
    case False
    then have pos: "0 < n div 2" by simp
    have bl: "bit_length n = Suc (bit_length (n div 2))"
      using "1.prems" by (subst bit_length.simps) simp
    have "0 < bit_length (n div 2)" using pos by (subst bit_length.simps) simp
    then have "(2::nat) ^ bit_length (n div 2) = 2 * 2 ^ (bit_length (n div 2) - 1)"
      by (cases "bit_length (n div 2)") simp_all
    also have "\<dots> \<le> 2 * (n div 2)" using "1.IH" [OF _ pos] "1.prems" by simp
    also have "\<dots> \<le> n" by simp
    finally show ?thesis by (simp add: bl)
  qed
qed

lemma bit_length_le: "n < 2 ^ j \<Longrightarrow> bit_length n \<le> j"
proof (induction n arbitrary: j rule: bit_length.induct)
  case (1 n)
  show ?case
  proof (cases "n = 0")
    case True
    then show ?thesis by (subst bit_length.simps) simp
  next
    case False
    then obtain i where j: "j = Suc i" using "1.prems" by (cases j) auto
    then have "n div 2 < 2 ^ i" using "1.prems" by auto
    from "1.IH" [OF False this] show ?thesis using False j by (subst bit_length.simps) simp
  qed
qed

lemma bit_length_double: "0 < n \<Longrightarrow> bit_length (2 * n) = Suc (bit_length n)"
  by (subst bit_length.simps) simp

lemma bit_length_shift: "0 < n \<Longrightarrow> bit_length (n * 2 ^ j) = bit_length n + j"
proof (induction j)
  case 0
  then show ?case by simp
next
  case (Suc j)
  have "bit_length (n * 2 ^ Suc j) = bit_length (2 * (n * 2 ^ j))" by (simp add: mult.commute mult.left_commute)
  also have "\<dots> = Suc (bit_length (n * 2 ^ j))" using Suc.prems by (intro bit_length_double) simp
  finally show ?case using Suc by simp
qed

text \<open>Rounding changes a number by at most one part in \<open>2^53\<close>.\<close>

lemma round_to_double_error:
  "round_to_double n * 2 ^ 53 \<le> n * (2 ^ 53 + 1)"
  "n * (2 ^ 53 - 1) \<le> round_to_double n * 2 ^ 53"
proof -
  have "round_to_double n * 2 ^ 53 \<le> n * (2 ^ 53 + 1) \<and> n * (2 ^ 53 - 1) \<le> round_to_double n * 2 ^ 53"
  proof (cases "bit_length n \<le> 53")
    case True
    then show ?thesis by (simp add: round_to_double_def)
  next
    case False
    define k where "k = bit_length n - 53"
    define h :: nat where "h = 2 ^ (k - 1)"
    define a where "a = (n div 2 ^ k) * 2 ^ k"
    define r where "r = n mod 2 ^ k"
    have k: "0 < k" using False by (simp add: k_def)
    then have pow: "(2::nat) ^ k = 2 * h" by (cases k) (simp_all add: h_def)
    have n: "n = a + r" unfolding a_def r_def by (rule div_mult_mod_eq [symmetric])
    have r: "r < 2 * h" unfolding r_def pow [symmetric] by simp
    have "0 < n" using False by (cases "n = 0") (simp_all add: bit_length.simps [of 0])
    from bit_length_lower [OF this] have "2 ^ (k + 52) \<le> n"
      using False by (simp add: k_def)
    then have big: "h * 2 ^ 53 \<le> n"
      using pow by (simp add: power_add)
    have "round_to_double n =
        (if 2 ^ (k - 1) < n mod 2 ^ k \<or> (n mod 2 ^ k = 2 ^ (k - 1) \<and> odd (n div 2 ^ k))
         then (n div 2 ^ k + 1) * 2 ^ k else n div 2 ^ k * 2 ^ k)"
      unfolding round_to_double_def Let_def k_def by (simp only: False if_False)
    moreover have "(n div 2 ^ k + 1) * 2 ^ k = a + 2 * h"
      unfolding a_def pow [symmetric] by (simp only: add_mult_distrib mult_1)
    ultimately have res: "round_to_double n =
        (if h < r \<or> (r = h \<and> odd (n div 2 ^ k)) then a + 2 * h else a)"
      by (simp only: h_def r_def a_def)
    show ?thesis
    proof (cases "h < r \<or> (r = h \<and> odd (n div 2 ^ k))")
      case True
      then have "round_to_double n = a + 2 * h" "h \<le> r" using res by auto
      then show ?thesis using n r big by simp
    next
      case False
      then have "round_to_double n = a" "r \<le> h" using res by auto
      then show ?thesis using n big by simp
    qed
  qed
  then show "round_to_double n * 2 ^ 53 \<le> n * (2 ^ 53 + 1)"
    and "n * (2 ^ 53 - 1) \<le> round_to_double n * 2 ^ 53" by simp_all
qed

lemma round_to_double_exact:
  assumes "x < 2 ^ 53"
  shows "round_to_double (x * 2 ^ 53) = x * 2 ^ 53"
proof (cases "x = 0")
  case True
  then show ?thesis by (simp add: round_to_double_def bit_length.simps [of 0])
next
  case False
  define k where "k = bit_length x"
  define U :: nat where "U = 2 ^ 53"
  have len: "bit_length (x * U) = k + 53"
    unfolding k_def U_def using False by (intro bit_length_shift) simp
  have k53: "k \<le> 53" using assms by (simp add: k_def bit_length_le)
  have k0: "0 < k" using False by (simp add: k_def bit_length.simps [of x])
  have "(2::nat) ^ k dvd 2 ^ 53" using k53 by (rule le_imp_power_dvd)
  then have dvd: "(2::nat) ^ k dvd x * U" unfolding U_def by (rule dvd_mult)
  then have mod0: "(x * U) mod 2 ^ k = 0" by simp
  have whole: "(x * U) div 2 ^ k * 2 ^ k = x * U" using dvd by simp
  have "round_to_double (x * U) = x * U"
    using k0 by (simp add: round_to_double_def Let_def len mod0 whole)
  then show ?thesis by (simp only: U_def)
qed

lemma beyond_threshold_above:
  assumes "10 * startIndex + 7 * m < 10 * sentenceEnd" and "10 * (startIndex + m) < 2 ^ 53"
  shows "beyond_threshold sentenceEnd startIndex m"
proof -
  define T where "T = round_to_double (m * d07)"
  define R where "R = round_to_double (startIndex * 2 ^ 53 + T)"
  have "T * 2 ^ 53 \<le> m * d07 * (2 ^ 53 + 1)"
    unfolding T_def by (rule round_to_double_error)
  moreover have "R * 2 ^ 53 \<le> (startIndex * 2 ^ 53 + T) * (2 ^ 53 + 1)"
    unfolding R_def by (rule round_to_double_error)
  ultimately have "R < sentenceEnd * 2 ^ 53"
    using assms by (simp add: d07_def)
  then show ?thesis by (simp only: beyond_threshold_def times_0_7_def T_def R_def)
qed

lemma beyond_threshold_below:
  assumes "10 * sentenceEnd < 10 * startIndex + 7 * m" and "10 * startIndex + 18 * m \<le> 2 ^ 53"
  shows "\<not> beyond_threshold sentenceEnd startIndex m"
proof -
  define T where "T = round_to_double (m * d07)"
  define R where "R = round_to_double (startIndex * 2 ^ 53 + T)"
  have "m * d07 * (2 ^ 53 - 1) \<le> T * 2 ^ 53"
    unfolding T_def by (rule round_to_double_error)
  moreover have "(startIndex * 2 ^ 53 + T) * (2 ^ 53 - 1) \<le> R * 2 ^ 53"
    unfolding R_def by (rule round_to_double_error)
  ultimately have "\<not> R < sentenceEnd * 2 ^ 53"
    using assms by (simp add: d07_def)
  then show ?thesis unfolding beyond_threshold_def times_0_7_def T_def R_def .
qed

lemma times_0_7_2000: "times_0_7 2000 = 1400 * 2 ^ 53"
  by (simp add: times_0_7_def round_to_double_def d07_def Let_def)

lemma beyond_threshold_2000:
  assumes "startIndex + 1400 < 2 ^ 53"
  shows "beyond_threshold sentenceEnd startIndex 2000 \<longleftrightarrow> startIndex + 1400 < sentenceEnd"
proof -
  have "startIndex * 2 ^ 53 + times_0_7 2000 = (startIndex + 1400) * 2 ^ 53"
    by (simp only: times_0_7_2000 add_mult_distrib)
  then have "round_to_double (startIndex * 2 ^ 53 + times_0_7 2000) = (startIndex + 1400) * 2 ^ 53"
    using round_to_double_exact [OF assms] by (simp only:)
  then show ?thesis by (simp only: beyond_threshold_def mult_less_cancel2) simp
qed

subsection \<open>Texts without sentence enders\<close>

lemma foldl_break_step_none:
  assumes "\<forall>i\<in>set ks. searchText ! i \<notin> set sentenceEnders"
  shows "foldl (break_step searchText start target) best ks = best"
  using assms by (induction ks arbitrary: best) (simp_all add: break_step_def)

lemma set_substring_subset: "set (substring s a b) \<subseteq> set s"
proof -
  have "set (substring s a b) \<subseteq> set (drop (min (min a (length s)) (min b (length s))) s)"
    unfolding substring_def Let_def by (rule set_take_subset)
  also have "\<dots> \<subseteq> set s" by (rule set_drop_subset)
  finally show ?thesis .
qed

lemma findSentenceBreak_no_enders:
  assumes "\<forall>c\<in>set text. c \<notin> set sentenceEnders"
  shows "findSentenceBreak text start target = target"
proof -
  let ?st = "substring text start (target + 200)"
  have "\<forall>i<length ?st. ?st ! i \<notin> set sentenceEnders"
  proof (intro allI impI)
    fix i
    assume "i < length ?st"
    then have "?st ! i \<in> set ?st" by (rule nth_mem)
    then have "?st ! i \<in> set text"
      using set_substring_subset [of "text" start "target + 200"] by (rule subsetD [rotated])
    then show "?st ! i \<notin> set sentenceEnders" using assms by (rule bspec [rotated])
  qed
  then have "\<forall>i\<in>set (rev [nat (max 0 (int target - int start - 200))..<length ?st]).
          ?st ! i \<notin> set sentenceEnders"
    by simp
  then show ?thesis
    unfolding findSentenceBreak_def Let_def by (simp only: foldl_break_step_none fst_conv)
qed

lemma window_end_no_enders:
  assumes "\<forall>c\<in>set text. c \<notin> set sentenceEnders"
  shows "window_end text m start = min (start + m) (length text)"
  unfolding window_end_def Let_def findSentenceBreak_no_enders [OF assms] by simp

lemma findOverlap_whole:
  assumes "n = min (OVERLAP_SIZE * 2) (min (length text1) (length text2))" and "0 < n"
    and "drop (length text1 - n) text1 = take n text2"
  shows "findOverlap text1 text2 = n"
proof -
  obtain k where k: "n = Suc k" using assms(2) by (cases n) auto
  have "[1..<Suc n] = [1..<n] @ [n]" using assms(2) by (simp add: k)
  then have "rev [1..<Suc n] = n # rev [1..<n]" by simp
  moreover have "substring_from text1 (length text1 - n) = substring text2 0 n"
    using assms(1,3) by (simp add: substring_from_drop substring_prefix)
  ultimately show ?thesis
    unfolding findOverlap_def Let_def assms(1) [symmetric] by simp
qed

lemma chunkText_same_letter:
  "map_option (map content) (chunkText (replicate 6000 0x61) MAX_CHUNK_SIZE)
     = Some [replicate 2000 0x61, replicate 2000 0x61, replicate 2000 0x61]"
  "map_option (map index) (chunkText (replicate 6000 0x61) MAX_CHUNK_SIZE) = Some [0, 1, 2]"
  by (simp_all add: chunkText_def MAX_CHUNK_SIZE_def chunk_loop.simps window_end_no_enders
      sentenceEnders_def next_start_id new_chunk_def set_totals_def substring_def Let_def)

lemma findOverlap_same_letter:
  "findOverlap (replicate 2000 (0x61 :: jschar)) (replicate 2000 0x61) = 200"
  by (rule findOverlap_whole) (simp_all add: OVERLAP_SIZE_def)

section \<open>Claims about the break threshold and the reassembler\<close>

lemma findSentenceBreak_examples:
  "findSentenceBreak (js ''aaaaaaa.aaaaaaaaaaaa'') 0 10 = 8"
  "findSentenceBreak (js ''aaaaaa.aaaaaaaaaaaaa'') 0 10 = 7"
  "findSentenceBreak (js ''aaa.aaaaaaaaaaaaaaaa'') 0 10 = 4"
  by (simp_all add: js_def findSentenceBreak_def substring_def break_step_def sentenceEnders_def
      calculateBreakScore_def Let_def upt_rec)

lemma window_end_at_seven_tenths:
  "window_end (js ''aaaaaa.aaaaaaaaaaaaa'') 10 0 = 10"
  by (simp add: chunker_eval)

lemma chunkText_at_seven_tenths:
  "map_option (map content) (chunkText (js ''aaaaaa.aaaaaaaaaaaaa'') 10)
     = Some [js ''aaaaaa.aaa'', js ''aaaaaaaaaa'']"
  by (simp add: chunker_eval)




lemma chunkText_distinct_letters:
  "map_option (map content) (chunkText (js ''abcdefg.hijklmnopqrs'') 10)
     = Some [js ''abcdefg.'', js ''hijklmnopq'', js ''rs'']"
  by (simp add: chunker_eval)

lemma findOverlap_distinct_letters:
  "findOverlap (js ''abcdefg.'') (js ''hijklmnopq'') = 0"
  "findOverlap (js ''hijklmnopq'') (js ''rs'') = 0"
  by (simp_all add: findOverlap_def js_def OVERLAP_SIZE_def substring_def substring_from_def
      Let_def upt_rec)




lemmas overlap_eval =
  findOverlap_def OVERLAP_SIZE_def substring_def substring_from_def js_def Let_def upt_rec

lemma findOverlap_examples:
  "findOverlap (js ''xab'') (js ''b'') = 1"
  "findOverlap (js ''b'') (js ''abq'') = 0"
  "findOverlap (js ''xab'') (js ''abq'') = 2"
  by (simp_all add: overlap_eval)

lemma sort_overlap_example: "sort_key index overlap_example = overlap_example"
  by (simp add: overlap_example_def)

lemma reconstructText_example: "reconstructText overlap_example = js ''xababq''"
proof -
  have "reconstructText overlap_example
      = js ''xab'' @ drop (findOverlap (js ''xab'') (js ''b'')) (js ''b'')
          @ drop (findOverlap (js ''b'') (js ''abq'')) (js ''abq'')"
    unfolding reconstructText_unfold sort_overlap_example
    by (simp add: overlap_example_def kept_part_def upt_rec)
  then show ?thesis by (simp add: findOverlap_examples) (simp add: js_def)
qed

lemma reassemble_as_specified_example: "reassemble_as_specified overlap_example = js ''xabq''"
proof -
  have drop_b: "drop 1 (js ''b'') = []" by (simp add: js_def)
  have "reassemble_as_specified overlap_example
      = (js ''xab'' @ drop (findOverlap (js ''xab'') (js ''b'')) (js ''b''))
          @ drop (findOverlap (js ''xab'' @ drop (findOverlap (js ''xab'') (js ''b'')) (js ''b''))
                    (js ''abq'')) (js ''abq'')"
    unfolding reassemble_as_specified_def sort_overlap_example
    by (simp add: overlap_example_def Let_def)
  also have "\<dots> = js ''xab'' @ drop 2 (js ''abq'')"
    by (simp only: findOverlap_examples drop_b append_Nil2)
  also have "\<dots> = js ''xabq''" by (simp add: js_def)
  finally show ?thesis .
qed

lemma findOverlap_example: "findOverlap (js ''xab'') (js ''b'') = 1"
  by (rule findOverlap_examples)

text \<open>
  C7 (as amended). \<open>reconstructText\<close> returns the empty text for no segments and the
  content of a single segment as it is. For more segments it sorts them by index and
  appends, to the content of the first, each next segment without its first
  \<open>findOverlap previous next\<close> characters, where \<open>previous\<close> is the content of the segment
  just before it in the sorted order (not the text assembled so far). \<open>findOverlap\<close> is
  the length of the longest suffix of its first argument that is a prefix of its second,
  among the lengths up to twice the overlap size and up to the length of either argument;
  it is 0 when there is none, and then the next segment is appended whole.
\<close>

theorem reconstructText_overlap_rule:
  "reconstructText [] = []
   \<and> reconstructText [c] = content c
   \<and> (2 \<le> length chunks \<longrightarrow>
        reconstructText chunks =
          content (sort_key index chunks ! 0)
          @ concat (map (\<lambda>i. drop (findOverlap (content (sort_key index chunks ! (i - 1)))
                                      (content (sort_key index chunks ! i)))
                                (content (sort_key index chunks ! i)))
                      [1..<length chunks]))
   \<and> findOverlap text1 text2 \<le> min (2 * OVERLAP_SIZE) (min (length text1) (length text2))
   \<and> drop (length text1 - findOverlap text1 text2) text1 = take (findOverlap text1 text2) text2
   \<and> (\<forall>j. findOverlap text1 text2 < j
            \<and> j \<le> min (2 * OVERLAP_SIZE) (min (length text1) (length text2))
          \<longrightarrow> drop (length text1 - j) text1 \<noteq> take j text2)"
proof -
  have many: "2 \<le> length chunks \<longrightarrow>
        reconstructText chunks =
          content (sort_key index chunks ! 0)
          @ concat (map (\<lambda>i. drop (findOverlap (content (sort_key index chunks ! (i - 1)))
                                      (content (sort_key index chunks ! i)))
                                (content (sort_key index chunks ! i)))
                      [1..<length chunks])"
  proof
    assume "2 \<le> length chunks"
    then have "chunks \<noteq> []" by auto
    then show "reconstructText chunks =
          content (sort_key index chunks ! 0)
          @ concat (map (\<lambda>i. drop (findOverlap (content (sort_key index chunks ! (i - 1)))
                                      (content (sort_key index chunks ! i)))
                                (content (sort_key index chunks ! i)))
                      [1..<length chunks])"
      using reconstructText_unfold [of chunks] by (simp add: kept_part_def [abs_def])
  qed
  have none: "reconstructText [] = []" by (simp add: reconstructText_def)
  have one: "reconstructText [c] = content c" by (simp add: reconstructText_def)
  from findOverlap_longest [of text1 text2] none one many show ?thesis
    by (simp only: mult.commute [of 2 OVERLAP_SIZE]) (intro conjI, simp_all)
qed

theorem reconstructText_overlap_rule_witness:
  "2 \<le> length overlap_example
   \<and> map (\<lambda>c. (index c, content c)) overlap_example
       = [(0, js ''xab''), (1, js ''b''), (2, js ''abq'')]
   \<and> reconstructText overlap_example = js ''xab'' @ drop 1 (js ''b'') @ drop 0 (js ''abq'')
   \<and> findOverlap (js ''xab'') (js ''b'') = 1
   \<and> drop (3 - 1) (js ''xab'') = take 1 (js ''b'')"
proof -
  have two: "2 \<le> length overlap_example" by (simp add: overlap_example_def)
  have fo: "findOverlap (js ''xab'') (js ''b'') = 1" by (rule findOverlap_example)
  have len: "length (js ''xab'') = 3" by (simp add: js_def)
  note rule = reconstructText_overlap_rule [of _ overlap_example "js ''xab''" "js ''b''"]
  have "drop (length (js ''xab'') - findOverlap (js ''xab'') (js ''b'')) (js ''xab'')
          = take (findOverlap (js ''xab'') (js ''b'')) (js ''b'')"
    by (rule rule [THEN conjunct2, THEN conjunct2, THEN conjunct2, THEN conjunct2,
          THEN conjunct1])
  then have suffix: "drop (3 - 1) (js ''xab'') = take 1 (js ''b'')"
    by (simp only: fo len)
  have "reconstructText overlap_example = js ''xababq''"
    by (rule reconstructText_example)
  then have rec: "reconstructText overlap_example = js ''xab'' @ drop 1 (js ''b'') @ drop 0 (js ''abq'')"
    by (simp add: js_def)
  have fields: "map (\<lambda>c. (index c, content c)) overlap_example
       = [(0, js ''xab''), (1, js ''b''), (2, js ''abq'')]"
    by (simp add: overlap_example_def)
  from two fields rec fo suffix show ?thesis by (intro conjI)
qed

theorem reconstructText_previous_segment_counterexample:
  "reconstructText overlap_example = js ''xababq''
   \<and> reassemble_as_specified overlap_example = js ''xabq''"
  using reconstructText_example reassemble_as_specified_example by (intro conjI)

section \<open>Properties of the streaming transcoder\<close>

lemma enumerate_shift:
  "map (\<lambda>(k, p). G k p) (enumerate (Suc j) xs) = map (\<lambda>(k, p). G (Suc k) p) (enumerate j xs)"
  by (induction xs arbitrary: j) simp_all

lemma writer_write_open:
  assumes "sink_state s = Open" and "\<forall>k. takes s = Some k \<longrightarrow> 0 < k"
  shows "writer_write s line
           = Inr (s\<lparr>written := written s @ [line], takes := map_option (\<lambda>k. k - 1) (takes s)\<rparr>)"
proof (cases "takes s")
  case None
  then show ?thesis using assms by (simp add: writer_write_def)
next
  case (Some k)
  then obtain n where "k = Suc n" using assms(2) by (cases k) auto
  then show ?thesis using Some assms by (simp add: writer_write_def)
qed

lemma pump_pieces:
  assumes "sink_state s = Open" and "\<forall>k. takes s = Some k \<longrightarrow> length pieces \<le> k"
  shows "pump e mdl (map Piece pieces) s w =
           (None,
            s\<lparr>written := written s
                 @ map (\<lambda>(k, p). delta_frame e mdl (uuids_drawn w + k) (clock_reads w + k) p)
                     (enumerate 0 pieces),
              takes := map_option (\<lambda>k. k - length pieces) (takes s)\<rparr>,
            w\<lparr>uuids_drawn := uuids_drawn w + length pieces,
              clock_reads := clock_reads w + length pieces\<rparr>)"
  using assms
proof (induction pieces arbitrary: s w)
  case Nil
  then show ?case by (simp add: option.map_ident)
next
  case (Cons p ps)
  define s1 where "s1 = s\<lparr>written := written s @ [delta_frame e mdl (uuids_drawn w) (clock_reads w) p],
                           takes := map_option (\<lambda>k. k - 1) (takes s)\<rparr>"
  define w2 where "w2 = w\<lparr>uuids_drawn := Suc (uuids_drawn w), clock_reads := Suc (clock_reads w)\<rparr>"
  have wr: "writer_write s (delta_frame e mdl (uuids_drawn w) (clock_reads w) p) = Inr s1"
    unfolding s1_def using Cons.prems by (intro writer_write_open) auto
  have step: "pump e mdl (map Piece (p # ps)) s w = pump e mdl (map Piece ps) s1 w2"
    using wr by (simp add: generateUUID_def Date_now_def delta_frame_def w2_def)
  have open1: "sink_state s1 = Open" using Cons.prems(1) by (simp add: s1_def)
  have room: "\<forall>k. takes s1 = Some k \<longrightarrow> length ps \<le> k"
    using Cons.prems(2) by (auto simp add: s1_def)
  have shift: "map (\<lambda>(k, p). delta_frame e mdl (uuids_drawn w2 + k) (clock_reads w2 + k) p)
                 (enumerate 0 ps)
             = map (\<lambda>(k, p). delta_frame e mdl (uuids_drawn w + k) (clock_reads w + k) p)
                 (enumerate (Suc 0) ps)"
    by (simp add: w2_def enumerate_shift)
  show ?case
    unfolding step Cons.IH [OF open1 room] shift
    by (simp add: s1_def w2_def option.map_comp comp_def)
qed

lemma show_nat_digits:
  "show_nat 0 = ''0''" "show_nat 1 = ''1''" "show_nat (Suc 0) = ''1''" "show_nat 2 = ''2''"
  "show_nat 3 = ''3''" "show_nat 500 = ''500''"
  by (simp_all add: show_nat.simps)

text \<open>
  C8. For a source stream that delivers the pieces \<open>p1, ..., pn\<close> and then ends, read by a
  consumer that takes the writes, the transcoder writes one delta frame per piece, in
  order (a \<open>chat.completion.chunk\<close> whose delta content is the decoded piece and whose
  \<open>finish_reason\<close> is null), then one final frame with empty delta and \<open>finish_reason\<close>
  \<open>stop\<close>, then the literal line \<open>data: [DONE]\<close> followed by two line feeds, and closes the
  sink. A stream of the single piece \<open>Hola\<close> gives two frames and the sentinel.
\<close>

theorem transcoder_frame_sequence:
  assumes "\<forall>k. consumer_takes e = Some k \<longrightarrow> length pieces + 2 \<le> k"
  shows "\<exists>s' w'. transcode e mdl rid (map Piece pieces) (new_sink e) w = (s', w')
           \<and> written s' =
               map (\<lambda>(k, p). delta_frame e mdl (uuids_drawn w + k) (clock_reads w + k) p)
                 (enumerate 0 pieces)
               @ [final_frame e mdl (uuids_drawn w + length pieces)
                    (clock_reads w + length pieces),
                  Raw_line DONE_line]
           \<and> length (written s') = length pieces + 2
           \<and> sink_state s' = Closed"
proof -
  define n where "n = length pieces"
  define s1 where "s1 = (new_sink e)\<lparr>written := written (new_sink e)
                 @ map (\<lambda>(k, p). delta_frame e mdl (uuids_drawn w + k) (clock_reads w + k) p)
                     (enumerate 0 pieces),
              takes := map_option (\<lambda>k. k - length pieces) (takes (new_sink e))\<rparr>"
  define w1 where "w1 = w\<lparr>uuids_drawn := uuids_drawn w + length pieces,
              clock_reads := clock_reads w + length pieces\<rparr>"
  have "pump e mdl (map Piece pieces) (new_sink e) w = (None, s1, w1)"
    unfolding s1_def w1_def using assms by (intro pump_pieces) (auto simp add: new_sink_def)
  moreover have open1: "sink_state s1 = Open" by (simp add: s1_def new_sink_def)
  moreover have room1: "\<forall>k. takes s1 = Some k \<longrightarrow> 0 < k"
    using assms by (auto simp add: s1_def new_sink_def)
  define s2 where "s2 = s1\<lparr>written := written s1 @ [final_frame e mdl (uuids_drawn w1) (clock_reads w1)],
      takes := map_option (\<lambda>k. k - 1) (takes s1)\<rparr>"
  have wr1: "writer_write s1 (final_frame e mdl (uuids_drawn w1) (clock_reads w1)) = Inr s2"
    unfolding s2_def using open1 room1 by (rule writer_write_open)
  have open2: "sink_state s2 = Open" using open1 by (simp add: s2_def)
  have room2: "\<forall>k. takes s2 = Some k \<longrightarrow> 0 < k"
    using assms by (auto simp add: s2_def s1_def new_sink_def)
  define s3 where "s3 = s2\<lparr>written := written s2 @ [Raw_line DONE_line],
      takes := map_option (\<lambda>k. k - 1) (takes s2)\<rparr>"
  have wr2: "writer_write s2 (Raw_line DONE_line) = Inr s3"
    unfolding s3_def using open2 room2 by (rule writer_write_open)
  ultimately have run: "transcode e mdl rid (map Piece pieces) (new_sink e) w
      = (s3\<lparr>sink_state := Closed\<rparr>,
         complete_if e rid (w1\<lparr>uuids_drawn := Suc (uuids_drawn w1),
                                clock_reads := Suc (clock_reads w1)\<rparr>))"
    using wr1 wr2
    by (simp add: transcode_def generateUUID_def Date_now_def final_frame_def Let_def)
  have frames: "written (s3\<lparr>sink_state := Closed\<rparr>) =
               map (\<lambda>(k, p). delta_frame e mdl (uuids_drawn w + k) (clock_reads w + k) p)
                 (enumerate 0 pieces)
               @ [final_frame e mdl (uuids_drawn w + length pieces)
                    (clock_reads w + length pieces),
                  Raw_line DONE_line]"
    by (simp add: s3_def s2_def s1_def w1_def new_sink_def)
  have "length (written (s3\<lparr>sink_state := Closed\<rparr>)) = length pieces + 2"
    unfolding frames by simp
  with run frames show ?thesis by simp
qed

theorem transcoder_frame_sequence_witness:
  "consumer_takes example_env = None
   \<and> (\<exists>s' w'. transcode example_env ''gpt-4o'' None [Piece hola] (new_sink example_env)
                 fresh_world = (s', w')
         \<and> written s' =
             [Json_line \<lparr> frame_id = ''chatcmpl-uuid-0'',
                          frame_object = ''chat.completion.chunk'',
                          frame_created = 1700000000, frame_model = ''gpt-4o'',
                          frame_choice_index = 0, delta_content = Some (js ''Hola''),
                          finish_reason = None \<rparr>,
              Json_line \<lparr> frame_id = ''chatcmpl-uuid-1'',
                          frame_object = ''chat.completion.chunk'',
                          frame_created = 1700000000, frame_model = ''gpt-4o'',
                          frame_choice_index = 0, delta_content = None,
                          finish_reason = Some ''stop'' \<rparr>,
              Raw_line (''data: [DONE]'' @ [CHR 0x0A, CHR 0x0A])]
         \<and> sink_state s' = Closed)"
proof -
  have all: "consumer_takes example_env = None" by (simp add: example_env_def)
  then have takes: "\<forall>k. consumer_takes example_env = Some k \<longrightarrow> length [hola] + 2 \<le> k"
    by simp
  from transcoder_frame_sequence [OF takes, of "''gpt-4o''" None fresh_world]
  obtain s' w' where run: "transcode example_env ''gpt-4o'' None [Piece hola]
        (new_sink example_env) fresh_world = (s', w')"
    and frames: "written s' =
               map (\<lambda>(k, p). delta_frame example_env ''gpt-4o'' (uuids_drawn fresh_world + k)
                               (clock_reads fresh_world + k) p)
                 (enumerate 0 [hola])
               @ [final_frame example_env ''gpt-4o'' (uuids_drawn fresh_world + length [hola])
                    (clock_reads fresh_world + length [hola]),
                  Raw_line DONE_line]"
    and closed: "sink_state s' = Closed"
    by (simp only: list.map) (elim conjE exE)
  have "written s' =
             [Json_line \<lparr> frame_id = ''chatcmpl-uuid-0'',
                          frame_object = ''chat.completion.chunk'',
                          frame_created = 1700000000, frame_model = ''gpt-4o'',
                          frame_choice_index = 0, delta_content = Some (js ''Hola''),
                          finish_reason = None \<rparr>,
              Json_line \<lparr> frame_id = ''chatcmpl-uuid-1'',
                          frame_object = ''chat.completion.chunk'',
                          frame_created = 1700000000, frame_model = ''gpt-4o'',
                          frame_choice_index = 0, delta_content = None,
                          finish_reason = Some ''stop'' \<rparr>,
              Raw_line (''data: [DONE]'' @ [CHR 0x0A, CHR 0x0A])]"
    unfolding frames
    by (simp add: delta_frame_def final_frame_def example_env_def fresh_world_def hola_def
        js_def DONE_line_def show_nat_digits)
  with all run closed show ?thesis by (intro conjI exI [of _ s'] exI [of _ w'])
qed

section \<open>Properties of the chunked run\<close>

lemma ok_responses:
  "ok (createSuccessResponse c)" "\<not> ok (createErrorResponse e msg (Some 500))"
  by (simp_all add: ok_def createSuccessResponse_def createErrorResponse_def)

lemma nonstreaming_call_fails:
  assumes "call_fails e (length (sent w))
             \<lparr> call_messages = msgs, call_model = mdl, call_temperature = temp,
               call_max_tokens = maxTokens, call_streaming = False, call_api_key = apiKey \<rparr>"
  shows "handleNonStreamingChat e msgs mdl temp maxTokens apiKey None w =
           (createErrorResponse e ''Failed to process chat completion'' (Some 500),
            w\<lparr>sent := sent w
                 @ [\<lparr> call_messages = msgs, call_model = mdl, call_temperature = temp,
                      call_max_tokens = maxTokens, call_streaming = False,
                      call_api_key = apiKey \<rparr>]\<rparr>)"
  using assms
  by (auto simp add: handleNonStreamingChat_def call_fails_def sendChatRequest_def fail_if_def
      Let_def split: backend_result.splits sum.splits)

lemma nonstreaming_call_succeeds:
  assumes "\<not> call_fails e (length (sent w))
             \<lparr> call_messages = msgs, call_model = mdl, call_temperature = temp,
               call_max_tokens = maxTokens, call_streaming = False, call_api_key = apiKey \<rparr>"
  shows "\<exists>c. handleNonStreamingChat e msgs mdl temp maxTokens apiKey None w =
           (createSuccessResponse c,
            w\<lparr>sent := sent w
                 @ [\<lparr> call_messages = msgs, call_model = mdl, call_temperature = temp,
                      call_max_tokens = maxTokens, call_streaming = False,
                      call_api_key = apiKey \<rparr>],
              uuids_drawn := Suc (uuids_drawn w), clock_reads := Suc (clock_reads w)\<rparr>)"
  using assms
  by (auto simp add: handleNonStreamingChat_def call_fails_def sendChatRequest_def
      complete_if_def transformToOpenAIFormat_def generateUUID_def Date_now_def Let_def
      split: backend_result.splits sum.splits)

lemma process_chunks_first_failure:
  assumes "i < length chunks"
    and "\<forall>j<i. \<not> call_fails e (length (sent w) + j)
                     (segment_call e temp maxTokens mdl apiKey (chunks ! j))"
    and "call_fails e (length (sent w) + i) (segment_call e temp maxTokens mdl apiKey (chunks ! i))"
  shows "\<exists>w'. process_chunks e temp maxTokens mdl apiKey chunks i0 acc w
                 = (Inl (Error (''Chunk '' @ show_nat (i0 + i + 1) @ '' failed with status ''
                                 @ show_nat 500)), w')
              \<and> sent w' = sent w @ map (segment_call e temp maxTokens mdl apiKey)
                                     (take (Suc i) chunks)
              \<and> metrics w' = metrics w"
  using assms
proof (induction chunks arbitrary: i i0 acc w)
  case Nil
  then show ?case by simp
next
  case (Cons chunk rest)
  let ?call = "segment_call e temp maxTokens mdl apiKey chunk"
  let ?msgs = "processMessages e [\<lparr> role = ''user'', message_content = Text (content chunk) \<rparr>]"
  show ?case
  proof (cases i)
    case 0
    then have "call_fails e (length (sent w)) ?call" using Cons.prems(3) by simp
    then have "handleNonStreamingChat e ?msgs mdl temp maxTokens (Some apiKey) None w =
           (createErrorResponse e ''Failed to process chat completion'' (Some 500),
            w\<lparr>sent := sent w @ [?call]\<rparr>)"
      unfolding segment_call_def by (rule nonstreaming_call_fails)
    then show ?thesis
      using 0 by (simp add: Let_def ok_def createErrorResponse_def)
  next
    case (Suc i')
    have "\<not> call_fails e (length (sent w)) ?call"
      using Cons.prems(2) [rule_format, of 0] Suc by simp
    then obtain c where call: "handleNonStreamingChat e ?msgs mdl temp maxTokens (Some apiKey) None w =
           (createSuccessResponse c,
            w\<lparr>sent := sent w @ [?call],
              uuids_drawn := Suc (uuids_drawn w), clock_reads := Suc (clock_reads w)\<rparr>)"
      unfolding segment_call_def using nonstreaming_call_succeeds by blast
    define w1 where "w1 = w\<lparr>sent := sent w @ [?call],
              uuids_drawn := Suc (uuids_drawn w), clock_reads := Suc (clock_reads w)\<rparr>"
    have step: "process_chunks e temp maxTokens mdl apiKey (chunk # rest) i0 acc w
        = process_chunks e temp maxTokens mdl apiKey rest (i0 + 1)
            (acc @ [translated_text (Completion c)]) w1"
      using call
      by (simp add: Let_def ok_def w1_def response_json_def createSuccessResponse_def)
    have i': "i' < length rest" using Cons.prems(1) Suc by simp
    have before: "\<forall>j<i'. \<not> call_fails e (length (sent w1) + j)
                     (segment_call e temp maxTokens mdl apiKey (rest ! j))"
    proof (intro allI impI)
      fix j
      assume "j < i'"
      then have "Suc j < i" using Suc by simp
      from Cons.prems(2) [rule_format, OF this]
      show "\<not> call_fails e (length (sent w1) + j)
                     (segment_call e temp maxTokens mdl apiKey (rest ! j))"
        by (simp add: w1_def)
    qed
    have at: "call_fails e (length (sent w1) + i')
                (segment_call e temp maxTokens mdl apiKey (rest ! i'))"
      using Cons.prems(3) Suc by (simp add: w1_def)
    from Cons.IH [OF i' before at, of "i0 + 1" "acc @ [translated_text (Completion c)]"]
    obtain w' where w': "process_chunks e temp maxTokens mdl apiKey rest (i0 + 1)
            (acc @ [translated_text (Completion c)]) w1
          = (Inl (Error (''Chunk '' @ show_nat (i0 + 1 + i' + 1) @ '' failed with status ''
                                 @ show_nat 500)), w')"
      "sent w' = sent w1 @ map (segment_call e temp maxTokens mdl apiKey) (take (Suc i') rest)"
      "metrics w' = metrics w1"
      by blast
    show ?thesis
      unfolding step using w' Suc by (intro exI [of _ w']) (simp add: w1_def)
  qed
qed

lemma failTranslation_records:
  assumes "metrics w rid = Some m"
  shows "\<exists>m'. metrics (failTranslation e rid msg w) rid = Some m'
           \<and> status m' = Failed \<and> error m' = Some msg"
    and "sent (failTranslation e rid msg w) = sent w"
  using assms by (simp_all add: failTranslation_def Date_now_def)

lemma segments_returns: "\<exists>chunks. segments msgs = Some chunks"
proof (cases "detectSubtitles (textContent_of msgs)")
  case True
  then show ?thesis by (simp add: segments_def)
next
  case False
  have "(0::nat) < 2000" by simp
  from chunkText_returns [OF this, of "textContent_of msgs"] False
  show ?thesis by (auto simp add: segments_def)
qed

subsection \<open>Texts that are not taken for subtitles\<close>

lemma any_suffix_none:
  assumes "\<And>t. p t \<Longrightarrow> t \<noteq> [] \<and> bad (hd t)" and "\<forall>c\<in>set s. \<not> bad c"
  shows "\<not> any_suffix p s"
  using assms(2)
proof (induction s)
  case Nil
  then show ?case using assms(1) [of "[]"] by auto
next
  case (Cons c cs)
  then show ?case using assms(1) [of "c # cs"] by auto
qed

lemma lines_between_members:
  "l \<in> set (lines_between line s) \<Longrightarrow> set l \<subseteq> set line \<union> set s"
proof (induction s arbitrary: line)
  case Nil
  then show ?case by simp
next
  case (Cons c cs)
  then show ?case by (fastforce split: if_splits)
qed

lemma detectSubtitles_plain:
  assumes "\<forall>c\<in>set text. \<not> (is_digit c \<or> c = 0x2D \<or> c = 0x3C \<or> c = 0x5B)"
  shows "\<not> detectSubtitles text"
proof -
  let ?bad = "\<lambda>c. is_digit c \<or> c = 0x2D \<or> c = 0x3C \<or> c = 0x5B"
  have "\<not> any_suffix timestamp_here text"
  proof (rule any_suffix_none [where bad = ?bad])
    fix t
    assume "timestamp_here t"
    then have "12 \<le> length t" "is_digit (t ! 0)" by (simp_all add: timestamp_here_def)
    then show "t \<noteq> [] \<and> ?bad (hd t)" by (cases t) auto
  qed (rule assms)
  moreover have "\<not> any_suffix arrow_here text"
  proof (rule any_suffix_none [where bad = ?bad])
    fix t
    assume "arrow_here t"
    then show "t \<noteq> [] \<and> ?bad (hd t)" by (cases t) (auto simp add: arrow_here_def)
  qed (rule assms)
  moreover have "\<not> any_suffix tag_here text"
  proof (rule any_suffix_none [where bad = ?bad])
    fix t
    assume "tag_here t"
    then show "t \<noteq> [] \<and> ?bad (hd t)" by (cases t) (auto simp add: tag_here_def)
  qed (rule assms)
  moreover have "\<not> any_suffix annotation_here text"
  proof (rule any_suffix_none [where bad = ?bad])
    fix t
    assume "annotation_here t"
    then show "t \<noteq> [] \<and> ?bad (hd t)" by (cases t) (auto simp add: annotation_here_def)
  qed (rule assms)
  moreover have "\<not> number_line text"
  proof
    assume "number_line text"
    then obtain l where l: "l \<in> set (lines_between [] text)" "l \<noteq> []" "list_all is_digit l"
      by (auto simp add: number_line_def list_ex_iff)
    from l(2,3) obtain c where "c \<in> set l" "is_digit c" by (cases l) auto
    moreover have "set l \<subseteq> set text" using lines_between_members [OF l(1)] by simp
    ultimately show False using assms by auto
  qed
  ultimately show ?thesis by (simp add: detectSubtitles_def)
qed

lemma segments_long_request:
  "map_option (map content)
     (segments [\<lparr> role = ''user'', message_content = Text (replicate 2001 0x61) \<rparr>])
     = Some [replicate 2000 0x61, replicate 1 0x61]"
proof -
  have plain: "\<not> detectSubtitles (replicate 2001 0x61)"
    by (rule detectSubtitles_plain) (simp add: is_digit_def)
  show ?thesis
    by (simp add: segments_def textContent_of_def text_of_def plain chunkText_def
        chunk_loop.simps window_end_no_enders sentenceEnders_def next_start_id new_chunk_def
        set_totals_def substring_def Let_def)
qed

section \<open>Claims about the handler\<close>


lemma failing_env_calls:
  "\<not> call_fails failing_env 0 call" "call_fails failing_env 1 call"
  "call_fails failing_env (Suc 0) call"
  by (simp_all add: call_fails_def failing_env_def example_env_def)

lemma started_world_facts:
  "sent started_world = []"
  "metrics started_world ''req-1'' =
     Some \<lparr> requestId = ''req-1'', startTime = 1700000000000, endTime = None, duration = None,
            textLength = 2001, chunkCount = None, metrics_model = ''gpt-4o'',
            status = Started, error = None \<rparr>"
  by (simp_all add: started_world_def startTranslation_def Date_now_def fresh_world_def
      failing_env_def example_env_def)


lemma chunked_response_shape:
  assumes "messages requestBody = Some msgs"
  shows "\<exists>r w'. handleChunkedTranslation e requestBody mdl apiKey rid w = Some (r, w')
           \<and> (r = createErrorResponse e ''Failed to process chunked translation'' (Some 500)
                \<or> (\<exists>c. r = createSuccessResponse c \<and> completion_object c = ''chat.completion''))"
proof -
  obtain chunks where chunks: "segments msgs = Some chunks"
    using segments_returns by blast
  obtain res w1 where run: "process_chunks e (temperature requestBody) (max_tokens requestBody)
      mdl apiKey chunks 0 [] w = (res, w1)"
    by (cases "process_chunks e (temperature requestBody) (max_tokens requestBody)
      mdl apiKey chunks 0 [] w") auto
  show ?thesis
  proof (cases res)
    case (Inl err)
    then show ?thesis
      using assms chunks run by (simp add: handleChunkedTranslation_def Let_def)
  next
    case (Inr translatedChunks)
    then show ?thesis
      using assms chunks run
      by (auto simp add: handleChunkedTranslation_def Let_def generateUUID_def Date_now_def)
  qed
qed

lemma chunked_ignores_stream:
  "handleChunkedTranslation e (requestBody\<lparr>stream := b\<rparr>) mdl apiKey rid w
     = handleChunkedTranslation e requestBody mdl apiKey rid w"
  by (simp add: handleChunkedTranslation_def Let_def split: option.splits)

lemma nonstreaming_response_is_json:
  "\<exists>j. response_body (fst (handleNonStreamingChat e msgs mdl temp maxTokens apiKey rid w)) = Json j"
  by (simp add: handleNonStreamingChat_def sendChatRequest_def createErrorResponse_def
      createSuccessResponse_def transformToOpenAIFormat_def generateUUID_def Date_now_def Let_def
      split: backend_result.splits sum.splits prod.splits)

lemma streaming_response_shape:
  "(\<exists>s. fst (handleStreamingChat e msgs mdl temp maxTokens apiKey rid w)
          = \<lparr> http_status = 200, response_body = Event_stream s \<rparr>)
   \<or> fst (handleStreamingChat e msgs mdl temp maxTokens apiKey rid w)
       = createErrorResponse e ''Failed to process streaming chat completion'' (Some 500)"
  by (simp add: handleStreamingChat_def sendChatRequest_def Let_def
      split: backend_result.splits option.splits prod.splits)


lemma long_request_chunked_run:
  "\<exists>c w'. handleChunkedTranslation example_env long_request mdl apiKey rid w
             = Some (createSuccessResponse c, w')
          \<and> completion_object c = ''chat.completion''
          \<and> choice_content c = js ''ok ok''
          \<and> length (sent w') = length (sent w) + 2"
proof -
  let ?msgs = "[\<lparr> role = ''user'', message_content = Text (replicate 2001 0x61) \<rparr>]"
  obtain chunks where chunks: "segments ?msgs = Some chunks"
    using segments_returns by blast
  have "map_option (map content) (Some chunks) = Some [replicate 2000 0x61, replicate 1 0x61]"
    unfolding chunks [symmetric] by (rule segments_long_request)
  then obtain a b where ab: "chunks = [a, b]"
    by (auto simp add: map_eq_Cons_conv)
  have plain: "\<not> detectSubtitles (textContent_of ?msgs)"
    by (simp add: textContent_of_def text_of_def detectSubtitles_plain is_digit_def)
  have run: "\<exists>w1. process_chunks example_env None None mdl apiKey [a, b] 0 [] w
      = (Inr [js ''ok'', js ''ok''], w1) \<and> length (sent w1) = length (sent w) + 2"
    by (simp add: Let_def handleNonStreamingChat_def sendChatRequest_def example_env_def
        transformToOpenAIFormat_def generateUUID_def Date_now_def complete_if_def
        createSuccessResponse_def ok_def response_json_def translated_text_def first_truthy_def
        js_def)
  then obtain w1 where w1: "process_chunks example_env None None mdl apiKey [a, b] 0 [] w
      = (Inr [js ''ok'', js ''ok''], w1)" "length (sent w1) = length (sent w) + 2"
    by blast
  have sent: "length (sent (completeTranslation example_env rid k w0)) = length (sent w0)"
    for k w0
    by (simp add: completeTranslation_def Date_now_def split: option.splits)
  have "join (js '' '') [js ''ok'', js ''ok''] = js ''ok ok''" by (simp add: js_def)
  then show ?thesis
    using chunks ab plain w1 sent
    by (auto simp add: handleChunkedTranslation_def long_request_def Let_def generateUUID_def
        Date_now_def)
qed

lemma short_request_stream_run:
  "\<exists>s w'. handleStreamingChat example_env
             (processMessages example_env
                [\<lparr> role = ''user'', message_content = Text (js ''Hello'') \<rparr>])
             mdl None None apiKey rid w
           = (\<lparr> http_status = 200, response_body = Event_stream s \<rparr>, w')
        \<and> length (written s) = 3 \<and> sink_state s = Closed"
  by (simp add: handleStreamingChat_def sendChatRequest_def example_env_def Let_def
      transcode_def generateUUID_def Date_now_def writer_write_def new_sink_def
      split: prod.splits)


end
